theory Spec2Isabelle
  imports Complex_Main "HOL-Library.Word" "HOL-Library.Multiset"
begin

unbundle bit_operations_syntax

section \<open>Conventions of the embedding\<close>

text \<open>
  The development embeds the networking core of the Augmented Reality Sandbox remote
  viewer: \<^verbatim>\<open>RemoteServer.cpp\<close> (the host side) and \<^verbatim>\<open>SandboxClient.cpp\<close> (the viewer
  side).

  \<^item> \<^verbatim>\<open>GLfloat\<close> arithmetic, which the elevation quantization and the widening of the
    elevation range are computed in, is IEEE binary32 arithmetic: a finite value is the
    real it denotes, and every operation rounds its exact result to the nearest binary32
    value, ties to even (type \<open>GLfloat\<close> below). The samples of a grid and the bounds of
    the elevation range are finite.
  \<^item> \<^verbatim>\<open>Vrui::Scalar\<close> (double precision) arithmetic, which \<^verbatim>\<open>intersectLine\<close> is computed
    in, is modelled over \<^typ>\<open>real\<close>, with the rounding left out. The one place where the
    IEEE rules decide the control flow, a division by zero, is modelled explicitly (type
    \<open>scalar\<close> below).
  \<^item> \<^verbatim>\<open>Misc::Float32\<close> values that are only moved between the wire and a field are kept
    as their 32-bit patterns.
  \<^item> \<^verbatim>\<open>GLsizei\<close> grid sizes and indices are \<^typ>\<open>int\<close> (no grid comes near the 32-bit
    limit); \<^verbatim>\<open>unsigned int numClients\<close> is a \<^typ>\<open>32 word\<close>, so that \<^verbatim>\<open>++\<close> and \<^verbatim>\<open>--\<close>
    wrap as in the code.
  \<^item> A \<^verbatim>\<open>throw std::runtime_error\<close> is the left injection of a sum; a function that can
    throw after it has changed its state returns the changed state along with the error.
  \<^item> \<^verbatim>\<open>Client*\<close> pointers are addresses into an explicit store of client objects.
\<close>

type_synonym byte = "8 word"
type_synonym Float32 = "32 word"
type_synonym addr = nat
type_synonym ListenerKey = nat

datatype error = runtime_error string

text \<open>Sequencing of two steps that may throw: the second runs only if the first returned.\<close>

definition thenDo ::
  "(error + 'a) \<times> 's \<Rightarrow> ('a \<Rightarrow> 's \<Rightarrow> (error + 'b) \<times> 's) \<Rightarrow> (error + 'b) \<times> 's" where
  "thenDo r f = (case r of (Inl e, s) \<Rightarrow> (Inl e, s) | (Inr x, s) \<Rightarrow> f x s)"

text \<open>
  A counted \<^verbatim>\<open>for(i=i0;i<n;++i)\<close> loop whose body may throw; the exception leaves the
  loop with the state reached so far.
\<close>

function forLoop ::
  "int \<Rightarrow> int \<Rightarrow> (int \<Rightarrow> 's \<Rightarrow> (error + unit) \<times> 's) \<Rightarrow> 's \<Rightarrow> (error + unit) \<times> 's" where
  "forLoop i n body s =
     (if i < n
      then (case body i s of
              (Inl e, s') \<Rightarrow> (Inl e, s')
            | (Inr _, s') \<Rightarrow> forLoop (i + 1) n body s')
      else (Inr (), s))"
  by pat_completeness auto
termination
  by (relation "measure (\<lambda>(i, n, body, s). nat (n - i))") auto

declare forLoop.simps [simp del]

section \<open>Elevation quantization\<close>

subsection \<open>Binary32 arithmetic\<close>

text \<open>
  A \<^verbatim>\<open>GLfloat\<close> is an IEEE binary32 value: a finite value (here the real it denotes), an
  infinity or a NaN. Zeros carry no sign in the embedding. The sign of a zero shows only
  in a division by it; the one variable divisor of the code is the difference of the two
  range bounds, and the difference of two equal binary32 values is \<open>+0\<close>.
\<close>

datatype GLfloat = Num real | PosInf | NegInf | NotANumber

text \<open>Rounding to the nearest integer, a tie to the even one.\<close>

definition roundEven :: "real \<Rightarrow> int" where
  "roundEven x =
     (let n = \<lfloor>x\<rfloor>; f = x - of_int n
      in if f < 1/2 then n else if 1/2 < f then n + 1 else if even n then n else n + 1)"

text \<open>
  The spacing of the binary32 values around \<open>x\<close>. A binary32 value has 24 significant
  bits: the values from \<open>2^23 * q\<close> up to \<open>2^24 * q\<close> are the multiples of \<open>q\<close>. The
  smallest spacing is \<open>1 / 2^149\<close> (the subnormal values and the first binade, up to
  \<open>1 / 2^125\<close>), the largest \<open>2^104\<close> (the last binade, from \<open>2^127\<close>), 253 doublings
  later. \<open>quantum n q x\<close> doubles \<open>q\<close> at most \<open>n\<close> times, until \<open>x\<close> is below \<open>2^24 * q\<close>.
\<close>

fun quantum :: "nat \<Rightarrow> real \<Rightarrow> real \<Rightarrow> real" where
  "quantum 0 q x = q"
| "quantum (Suc n) q x = (if 2^24 * q \<le> x then quantum n (2 * q) x else q)"

definition ulp32 :: "real \<Rightarrow> real" where
  "ulp32 x = quantum 253 (1 / 2^149) \<bar>x\<bar>"

text \<open>
  The multiple of the spacing nearest to \<open>x\<close>, a tie going to the even multiple: the
  binary32 rounding of \<open>x\<close> (round to nearest, ties to even) as long as the result is below
  \<open>2^128\<close>; a result that reaches \<open>2^128\<close> is an overflow, which rounds to an infinity.
\<close>

definition nearest32 :: "real \<Rightarrow> real" where
  "nearest32 x = ulp32 x * of_int (roundEven (x / ulp32 x))"

definition round32 :: "real \<Rightarrow> GLfloat" where
  "round32 x =
     (let r = nearest32 x
      in if 2^128 \<le> r then PosInf else if r \<le> - (2^128) then NegInf else Num r)"

text \<open>
  The four operations and the comparison, with the IEEE rules for infinities and NaN.
  Every operation rounds its exact result on its own: no fused multiply-add, no wider
  intermediate format.
\<close>

definition infinity32 :: "bool \<Rightarrow> GLfloat" where
  "infinity32 positive = (if positive then PosInf else NegInf)"

fun neg32 :: "GLfloat \<Rightarrow> GLfloat" where
  "neg32 (Num x) = Num (- x)"
| "neg32 PosInf = NegInf"
| "neg32 NegInf = PosInf"
| "neg32 NotANumber = NotANumber"

fun add32 :: "GLfloat \<Rightarrow> GLfloat \<Rightarrow> GLfloat" where
  "add32 (Num x) (Num y) = round32 (x + y)"
| "add32 NotANumber b = NotANumber"
| "add32 a NotANumber = NotANumber"
| "add32 PosInf NegInf = NotANumber"
| "add32 NegInf PosInf = NotANumber"
| "add32 PosInf b = PosInf"
| "add32 NegInf b = NegInf"
| "add32 (Num x) b = b"

definition sub32 :: "GLfloat \<Rightarrow> GLfloat \<Rightarrow> GLfloat" where
  "sub32 a b = add32 a (neg32 b)"

fun mul32 :: "GLfloat \<Rightarrow> GLfloat \<Rightarrow> GLfloat" where
  "mul32 (Num x) (Num y) = round32 (x * y)"
| "mul32 NotANumber b = NotANumber"
| "mul32 a NotANumber = NotANumber"
| "mul32 (Num x) PosInf = (if x = 0 then NotANumber else infinity32 (0 < x))"
| "mul32 (Num x) NegInf = (if x = 0 then NotANumber else infinity32 (x < 0))"
| "mul32 PosInf (Num y) = (if y = 0 then NotANumber else infinity32 (0 < y))"
| "mul32 NegInf (Num y) = (if y = 0 then NotANumber else infinity32 (y < 0))"
| "mul32 PosInf PosInf = PosInf"
| "mul32 PosInf NegInf = NegInf"
| "mul32 NegInf PosInf = NegInf"
| "mul32 NegInf NegInf = PosInf"

fun div32 :: "GLfloat \<Rightarrow> GLfloat \<Rightarrow> GLfloat" where
  "div32 (Num x) (Num y) =
     (if y \<noteq> 0 then round32 (x / y) else if x = 0 then NotANumber else infinity32 (0 < x))"
| "div32 NotANumber b = NotANumber"
| "div32 a NotANumber = NotANumber"
| "div32 (Num x) b = Num 0"
| "div32 PosInf (Num y) = infinity32 (0 \<le> y)"
| "div32 NegInf (Num y) = infinity32 (y < 0)"
| "div32 a b = NotANumber"

fun le32 :: "GLfloat \<Rightarrow> GLfloat \<Rightarrow> bool" where
  "le32 (Num x) (Num y) = (x \<le> y)"
| "le32 NotANumber b = False"
| "le32 a NotANumber = False"
| "le32 NegInf b = True"
| "le32 a PosInf = True"
| "le32 a b = False"

text \<open>
  \<^verbatim>\<open>Misc::UInt16(se)\<close>: the C++ conversion of a floating-point value to an unsigned
  16-bit integer discards the fractional part (truncation towards zero). The code converts
  only a value that is neither \<open>\<le> 0\<close> nor \<open>\<ge> 65535\<close>: a finite one strictly in between, or a
  NaN, whose conversion C++ leaves undefined.
\<close>

fun UInt16 :: "GLfloat \<Rightarrow> 16 word" where
  "UInt16 (Num x) = word_of_int (if 0 \<le> x then \<lfloor>x\<rfloor> else \<lceil>x\<rceil>)"
| "UInt16 a = undefined"

text \<open>
  A grid of the embedding holds finite samples: a sample that the arithmetic makes
  infinite or NaN has no value in it.
\<close>

fun stored :: "GLfloat \<Rightarrow> real" where
  "stored (Num x) = x"
| "stored a = undefined"

subsection \<open>The two directions\<close>

text \<open>
  The server's quantization of one sample (\<^verbatim>\<open>RemoteServer::communicationThreadMethod\<close>):
  \<^verbatim>\<open>
  GLfloat eScale=65535.0f/(elevationRange[1]-elevationRange[0]);
  GLfloat eOffset=0.5f-elevationRange[0]*eScale;
  GLfloat se=*bPtr*eScale+eOffset;
  if(se<=0.0f) write(0U); else if(se>=65535.0f) write(65535U); else write(UInt16(se));
  \<close>
  The range bounds and the sample are finite binary32 values.
\<close>

definition quantize :: "real \<times> real \<Rightarrow> real \<Rightarrow> 16 word" where
  "quantize elevationRange e =
     (let eScale = div32 (Num 65535) (sub32 (Num (snd elevationRange)) (Num (fst elevationRange)));
          eOffset = sub32 (Num (1/2)) (mul32 (Num (fst elevationRange)) eScale);
          se = add32 (mul32 (Num e) eScale) eOffset
      in if le32 se (Num 0) then 0
         else if le32 (Num 65535) se then 65535
         else UInt16 se)"

text \<open>
  The client's dequantization of one code (\<^verbatim>\<open>SandboxClient::readGrids\<close>):
  \<^verbatim>\<open>
  GLfloat eScale=(elevationRange[1]-elevationRange[0])/65535.0f;
  GLfloat eOffset=elevationRange[0];
  *bPtr=GLfloat(pipe->read<Misc::UInt16>())*eScale+eOffset;
  \<close>
  The conversion of a 16-bit code to \<^verbatim>\<open>GLfloat\<close> is exact.
\<close>

definition dequantize :: "real \<times> real \<Rightarrow> 16 word \<Rightarrow> real" where
  "dequantize elevationRange k =
     (let eScale = div32 (sub32 (Num (snd elevationRange)) (Num (fst elevationRange))) (Num 65535);
          eOffset = Num (fst elevationRange)
      in stored (add32 (mul32 (Num (real (unat k))) eScale) eOffset))"

text \<open>
  The quantization in the spec's words, to compare the code with: \<open>scale = 65535 / (max - min)\<close>,
  \<open>bias = 0.5 - min * scale\<close>, \<open>raw = e * scale + bias\<close>; the code is 0 if \<open>raw \<le> 0\<close>,
  65535 if \<open>raw \<ge> 65535\<close>, else the integer truncation of \<open>raw\<close>. Decoding:
  \<open>e = code * (max - min) / 65535 + min\<close>. These are formulas over the real numbers.
\<close>

definition spec_encode :: "real \<Rightarrow> real \<Rightarrow> real \<Rightarrow> nat" where
  "spec_encode lo hi e =
     (let scale = 65535 / (hi - lo);
          bias = 0.5 - lo * scale;
          raw = e * scale + bias
      in if raw \<le> 0 then 0
         else if raw \<ge> 65535 then 65535
         else nat (if 0 \<le> raw then \<lfloor>raw\<rfloor> else \<lceil>raw\<rceil>))"

definition spec_decode :: "real \<Rightarrow> real \<Rightarrow> nat \<Rightarrow> real" where
  "spec_decode lo hi code = real code * (hi - lo) / 65535 + lo"

text \<open>
  The same formulas with the result of every operation rounded to the nearest binary32
  value, the decoding multiplying the code by the rounded quotient \<open>(max - min) / 65535\<close>.
\<close>

definition spec_encode32 :: "real \<Rightarrow> real \<Rightarrow> real \<Rightarrow> nat" where
  "spec_encode32 lo hi e =
     (let scale = nearest32 (65535 / nearest32 (hi - lo));
          bias = nearest32 (1/2 - nearest32 (lo * scale));
          raw = nearest32 (nearest32 (e * scale) + bias)
      in if raw \<le> 0 then 0
         else if raw \<ge> 65535 then 65535
         else nat (if 0 \<le> raw then \<lfloor>raw\<rfloor> else \<lceil>raw\<rceil>))"

definition spec_decode32 :: "real \<Rightarrow> real \<Rightarrow> nat \<Rightarrow> real" where
  "spec_decode32 lo hi code =
     nearest32 (nearest32 (real code * nearest32 (nearest32 (hi - lo) / 65535)) + lo)"

section \<open>The byte stream of a connection\<close>

text \<open>
  Modelled from the spec: \<^verbatim>\<open>Comm::TCPPipe\<close> belongs to the Vrui toolkit and is not part of
  the sources; the spec describes the transport as one byte stream per connection, whose
  reads and writes can fail, with multi-byte values corrected by a byte-swap flag.

  \<^item> \<open>received\<close>: the bytes the peer sends on this connection before it ends. A read
    past their end is the read failure (the peer closed or reset the connection).
  \<^item> \<open>sent\<close>: the bytes written so far.
  \<^item> \<open>writable\<close>: how many more bytes the connection carries before a write fails;
    \<open>None\<close> for a connection that never fails. Writes are not buffered in the model, so
    \<^verbatim>\<open>flush\<close> has nothing left to do.
  \<^item> Values are laid out least significant byte first, as on the hosts the program is
    built for; \<open>swapOnRead\<close> reverses the bytes of each value that is read.
\<close>

record TCPPipe =
  swapOnRead :: bool
  received :: "byte list"
  sent :: "byte list"
  writable :: "nat option"

definition TCPPipe_new :: "byte list \<Rightarrow> nat option \<Rightarrow> TCPPipe" where
  "TCPPipe_new incoming limit =
     \<lparr>swapOnRead = False, received = incoming, sent = [], writable = limit\<rparr>"

definition setSwapOnRead :: "bool \<Rightarrow> TCPPipe \<Rightarrow> TCPPipe" where
  "setSwapOnRead b p = p\<lparr>swapOnRead := b\<rparr>"

definition readRaw :: "nat \<Rightarrow> TCPPipe \<Rightarrow> (error + byte list) \<times> TCPPipe" where
  "readRaw n p =
     (if n \<le> length (received p)
      then (Inr (take n (received p)), p\<lparr>received := drop n (received p)\<rparr>)
      else (Inl (runtime_error ''TCPPipe: read error''), p\<lparr>received := []\<rparr>))"

definition writeRaw :: "byte list \<Rightarrow> TCPPipe \<Rightarrow> (error + unit) \<times> TCPPipe" where
  "writeRaw bs p =
     (case writable p of
        None \<Rightarrow> (Inr (), p\<lparr>sent := sent p @ bs\<rparr>)
      | Some k \<Rightarrow>
          if length bs \<le> k
          then (Inr (), p\<lparr>sent := sent p @ bs, writable := Some (k - length bs)\<rparr>)
          else (Inl (runtime_error ''TCPPipe: write error''), p\<lparr>writable := Some 0\<rparr>))"

definition flush :: "TCPPipe \<Rightarrow> (error + unit) \<times> TCPPipe" where
  "flush p = (Inr (), p)"

text \<open>The value held by a group of bytes in memory, after the optional swap.\<close>

definition hostValue :: "bool \<Rightarrow> byte list \<Rightarrow> 'a::len word" where
  "hostValue swap bs = word_rcat (if swap then bs else rev bs)"

definition hostBytes16 :: "16 word \<Rightarrow> byte list" where
  "hostBytes16 w = [ucast w, ucast (drop_bit 8 w)]"

definition hostBytes32 :: "32 word \<Rightarrow> byte list" where
  "hostBytes32 w = [ucast w, ucast (drop_bit 8 w), ucast (drop_bit 16 w), ucast (drop_bit 24 w)]"

definition read_UInt16 :: "TCPPipe \<Rightarrow> (error + 16 word) \<times> TCPPipe" where
  "read_UInt16 p =
     (case readRaw 2 p of
        (Inl e, p') \<Rightarrow> (Inl e, p')
      | (Inr bs, p') \<Rightarrow> (Inr (hostValue (swapOnRead p) bs), p'))"

definition read_UInt32 :: "TCPPipe \<Rightarrow> (error + 32 word) \<times> TCPPipe" where
  "read_UInt32 p =
     (case readRaw 4 p of
        (Inl e, p') \<Rightarrow> (Inl e, p')
      | (Inr bs, p') \<Rightarrow> (Inr (hostValue (swapOnRead p) bs), p'))"

text \<open>\<^verbatim>\<open>read(Float32* data,size_t n)\<close>: \<open>n\<close> values in one read, each swapped on its own.\<close>

fun chunks4 :: "byte list \<Rightarrow> byte list list" where
  "chunks4 (a # b # c # d # rest) = [a, b, c, d] # chunks4 rest"
| "chunks4 _ = []"

definition read_Float32s :: "nat \<Rightarrow> TCPPipe \<Rightarrow> (error + Float32 list) \<times> TCPPipe" where
  "read_Float32s n p =
     (case readRaw (4 * n) p of
        (Inl e, p') \<Rightarrow> (Inl e, p')
      | (Inr bs, p') \<Rightarrow> (Inr (map (hostValue (swapOnRead p)) (chunks4 bs)), p'))"

definition write_UInt16 :: "16 word \<Rightarrow> TCPPipe \<Rightarrow> (error + unit) \<times> TCPPipe" where
  "write_UInt16 w p = writeRaw (hostBytes16 w) p"

definition write_UInt32 :: "32 word \<Rightarrow> TCPPipe \<Rightarrow> (error + unit) \<times> TCPPipe" where
  "write_UInt32 w p = writeRaw (hostBytes32 w) p"

definition write_Float32 :: "Float32 \<Rightarrow> TCPPipe \<Rightarrow> (error + unit) \<times> TCPPipe" where
  "write_Float32 w p = writeRaw (hostBytes32 w) p"

section \<open>RemoteServer\<close>

subsection \<open>State\<close>

datatype ClientStates = START | STREAMING

text \<open>
  \<^verbatim>\<open>struct Client\<close>. The constructor leaves \<open>position\<close> and \<open>direction\<close> without a value
  (\<open>None\<close>) until the first position update; \<^verbatim>\<open>server\<close>, the back pointer, is the state
  that every function below receives.
\<close>

record Client =
  clientPipe :: TCPPipe
  listenerKey :: ListenerKey
  state :: ClientStates
  position :: "Float32 list option"
  direction :: "Float32 list option"

text \<open>\<^verbatim>\<open>struct GridBuffers\<close>, of the server and of the client alike.\<close>

record GridBuffers =
  bathymetry :: "real list"
  waterLevel :: "real list"

text \<open>
  The part of \<^verbatim>\<open>class RemoteServer\<close> that the communication thread works on.
  \<open>listeners\<close> is the set of keys registered with \<^verbatim>\<open>dispatcher\<close>; \<open>heap\<close> holds the
  \<^verbatim>\<open>Client\<close> objects that \<^verbatim>\<open>new\<close> has created and \<^verbatim>\<open>delete\<close> has not yet destroyed.
\<close>

record RemoteServer =
  gridSize :: "int \<times> int"
  cellSize :: "real \<times> real"
  elevationRange :: "real \<times> real"
  listeners :: "ListenerKey set"
  clients :: "addr list"
  heap :: "addr \<rightharpoonup> Client"
  numClients :: "32 word"

text \<open>
  \<^verbatim>\<open>*client\<close>. Dereferencing a pointer to a destroyed object is undefined in C++ and
  unspecified here; every theorem is about live clients.
\<close>

definition deref :: "RemoteServer \<Rightarrow> addr \<Rightarrow> Client" where
  "deref s a = the (heap s a)"

definition store :: "addr \<Rightarrow> Client \<Rightarrow> RemoteServer \<Rightarrow> RemoteServer" where
  "store a c s = s\<lparr>heap := (heap s)(a \<mapsto> c)\<rparr>"

text \<open>
  The constructor \<^verbatim>\<open>RemoteServer::RemoteServer\<close>: sizes from the water table, the
  elevation range widened by the safety margin (the second line of the widening reads the
  already lowered minimum, as the code does), the listening socket registered under
  \<open>listenKey\<close>, no clients.
  \<^verbatim>\<open>
  elevationRange[0]-=(elevationRange[1]-elevationRange[0])*0.05f;
  elevationRange[1]+=(elevationRange[1]-elevationRange[0])*0.05f;
  \<close>
  is binary32 arithmetic; the literal \<^verbatim>\<open>0.05f\<close> is the binary32 value nearest to \<open>0.05\<close>,
  which is \<open>13421773 / 2^28\<close>.
\<close>

definition RemoteServer_new ::
  "int \<times> int \<Rightarrow> real \<times> real \<Rightarrow> real \<times> real \<Rightarrow> ListenerKey \<Rightarrow> RemoteServer" where
  "RemoteServer_new tableSize tableCell domain listenKey =
     (let e0 = Num (fst domain);
          e1 = Num (snd domain);
          e0' = sub32 e0 (mul32 (sub32 e1 e0) (Num (13421773 / 2^28)));
          e1' = add32 e1 (mul32 (sub32 e1 e0') (Num (13421773 / 2^28)))
      in \<lparr>gridSize = tableSize, cellSize = tableCell, elevationRange = (stored e0', stored e1'),
          listeners = {listenKey}, clients = [], heap = Map.empty, numClients = 0\<rparr>)"

subsection \<open>disconnectClient\<close>

text \<open>The search loop of \<^verbatim>\<open>disconnectClient\<close>: the position of the first match.\<close>

fun findClient :: "addr list \<Rightarrow> addr \<Rightarrow> nat option" where
  "findClient [] client = None"
| "findClient (c # cs) client =
     (if c = client then Some 0 else map_option Suc (findClient cs client))"

text \<open>
  \<^verbatim>\<open>
  if(client->state==Client::STREAMING) --numClients;
  if(removeListener) dispatcher.removeIOEventListener(client->listenerKey);
  *cIt=clients.back(); clients.pop_back();
  delete client;
  \<close>
  A client that is not in the list is left alone.
\<close>

definition disconnectClient :: "addr \<Rightarrow> bool \<Rightarrow> RemoteServer \<Rightarrow> RemoteServer" where
  "disconnectClient client removeListener s =
     (case findClient (clients s) client of
        None \<Rightarrow> s
      | Some i \<Rightarrow>
          s\<lparr>numClients :=
               (if state (deref s client) = STREAMING then numClients s - 1 else numClients s),
             listeners :=
               (if removeListener then listeners s - {listenerKey (deref s client)}
                else listeners s),
             clients := butlast ((clients s)[i := last (clients s)]),
             heap := (heap s)(client := None)\<rparr>)"

subsection \<open>newConnectionCallback\<close>

text \<open>
  The writes of the try block: the endianness token, the two (size, cell size) pairs, the
  elevation range, the flush. \<open>f32\<close> gives the bit pattern of a \<^verbatim>\<open>Float32\<close>; the
  encoding is not modelled and is taken as a parameter.
\<close>

definition sendGreeting ::
  "(real \<Rightarrow> Float32) \<Rightarrow> RemoteServer \<Rightarrow> TCPPipe \<Rightarrow> (error + unit) \<times> TCPPipe" where
  "sendGreeting f32 thisPtr p0 =
     thenDo (write_UInt32 0x12345678 p0) (\<lambda>_ p1.
     thenDo (write_UInt32 (word_of_int (fst (gridSize thisPtr))) p1) (\<lambda>_ p2.
     thenDo (write_Float32 (f32 (fst (cellSize thisPtr))) p2) (\<lambda>_ p3.
     thenDo (write_UInt32 (word_of_int (snd (gridSize thisPtr))) p3) (\<lambda>_ p4.
     thenDo (write_Float32 (f32 (snd (cellSize thisPtr))) p4) (\<lambda>_ p5.
     thenDo (write_Float32 (f32 (fst (elevationRange thisPtr))) p5) (\<lambda>_ p6.
     thenDo (write_Float32 (f32 (snd (elevationRange thisPtr))) p6) (\<lambda>_ p7.
     flush p7)))))))"

text \<open>
  \<open>conn\<close> is what the listening socket hands to the \<^verbatim>\<open>Client\<close> constructor: \<open>None\<close>
  when accepting throws, otherwise the new connection's incoming bytes and write limit.
  \<open>a\<close> is the address \<^verbatim>\<open>new\<close> returns and \<open>key\<close> the key \<^verbatim>\<open>addIOEventListener\<close> returns.
  Any exception discards the new client; the callback always returns \<^verbatim>\<open>false\<close>.
\<close>

definition newConnectionCallback ::
  "(real \<Rightarrow> Float32) \<Rightarrow> addr \<Rightarrow> ListenerKey \<Rightarrow> (byte list \<times> nat option) option \<Rightarrow>
   RemoteServer \<Rightarrow> bool \<times> RemoteServer" where
  "newConnectionCallback f32 a key conn thisPtr =
     (case conn of
        None \<Rightarrow> (False, thisPtr)
      | Some (incoming, limit) \<Rightarrow>
          (case sendGreeting f32 thisPtr (TCPPipe_new incoming limit) of
             (Inl err, _) \<Rightarrow> (False, thisPtr)
           | (Inr _, p) \<Rightarrow>
               (False,
                thisPtr\<lparr>listeners := insert key (listeners thisPtr),
                        clients := clients thisPtr @ [a],
                        heap := (heap thisPtr)(a \<mapsto>
                          \<lparr>clientPipe = p, listenerKey = key, state = START,
                           position = None, direction = None\<rparr>)\<rparr>)))"

subsection \<open>clientMessageCallback\<close>

text \<open>
  The try block of \<^verbatim>\<open>clientMessageCallback\<close>, by the client's state. The client object
  is written back after every step, so an exception finds what was done before it.
\<close>

definition handleSTART :: "addr \<Rightarrow> RemoteServer \<Rightarrow> (error + unit) \<times> RemoteServer" where
  "handleSTART client server =
     (let c = deref server client in
      case read_UInt32 (clientPipe c) of
        (Inl e, p) \<Rightarrow> (Inl e, store client (c\<lparr>clientPipe := p\<rparr>) server)
      | (Inr token, p) \<Rightarrow>
          if token = 0x78563412
          then (Inr (),
                (store client (c\<lparr>clientPipe := setSwapOnRead True p, state := STREAMING\<rparr>) server)
                  \<lparr>numClients := numClients server + 1\<rparr>)
          else if token \<noteq> 0x12345678
          then (Inl (runtime_error ''Invalid endianness token''),
                store client (c\<lparr>clientPipe := p\<rparr>) server)
          else (Inr (),
                (store client (c\<lparr>clientPipe := p, state := STREAMING\<rparr>) server)
                  \<lparr>numClients := numClients server + 1\<rparr>))"

definition handleSTREAMING :: "addr \<Rightarrow> RemoteServer \<Rightarrow> (error + unit) \<times> RemoteServer" where
  "handleSTREAMING client server =
     (let c = deref server client in
      case read_UInt16 (clientPipe c) of
        (Inl e, p) \<Rightarrow> (Inl e, store client (c\<lparr>clientPipe := p\<rparr>) server)
      | (Inr token, p) \<Rightarrow>
          if unat token = 0
          then (case read_Float32s 3 p of
                  (Inl e, p') \<Rightarrow> (Inl e, store client (c\<lparr>clientPipe := p'\<rparr>) server)
                | (Inr pos, p') \<Rightarrow>
                    (case read_Float32s 3 p' of
                       (Inl e, p'') \<Rightarrow>
                         (Inl e, store client (c\<lparr>clientPipe := p'', position := Some pos\<rparr>) server)
                     | (Inr dir, p'') \<Rightarrow>
                         (Inr (),
                          store client
                            (c\<lparr>clientPipe := p'', position := Some pos, direction := Some dir\<rparr>)
                            server)))
          else (Inl (runtime_error ''Invalid client message''),
                store client (c\<lparr>clientPipe := p\<rparr>) server))"

text \<open>
  The callback: the handler of the exception disconnects the client without touching the
  dispatcher and returns \<^verbatim>\<open>true\<close>, which asks the dispatcher to stop listening.
\<close>

definition clientMessageCallback :: "addr \<Rightarrow> RemoteServer \<Rightarrow> bool \<times> RemoteServer" where
  "clientMessageCallback client server =
     (case (case state (deref server client) of
              START \<Rightarrow> handleSTART client server
            | STREAMING \<Rightarrow> handleSTREAMING client server) of
        (Inl err, server') \<Rightarrow> (True, disconnectClient client False server')
      | (Inr _, server') \<Rightarrow> (False, server'))"

text \<open>
  Modelled from the spec: \<^verbatim>\<open>Threads::EventDispatcher\<close> is not part of the sources. Of the
  dispatcher the spec says that a callback's return value tells it whether to deregister
  that listener; \<open>eventKey\<close> is the key under which the callback was registered.
\<close>

definition dispatchClientEvent :: "addr \<Rightarrow> RemoteServer \<Rightarrow> RemoteServer" where
  "dispatchClientEvent client server =
     (let eventKey = listenerKey (deref server client);
          (remove, server') = clientMessageCallback client server
      in if remove then server'\<lparr>listeners := listeners server' - {eventKey}\<rparr> else server')"

subsection \<open>The broadcast of communicationThreadMethod\<close>

text \<open>
  One sample of a grid: quantize what the running pointer points at, write the code,
  advance the pointer. The loop state is the pointer (an index into the grid) and the pipe.
\<close>

definition sendSample ::
  "real \<times> real \<Rightarrow> real list \<Rightarrow> nat \<times> TCPPipe \<Rightarrow> (error + unit) \<times> (nat \<times> TCPPipe)" where
  "sendSample er grid st =
     (case write_UInt16 (quantize er (grid ! fst st)) (snd st) of
        (Inl e, p) \<Rightarrow> (Inl e, (fst st, p))
      | (Inr _, p) \<Rightarrow> (Inr (), (fst st + 1, p)))"

text \<open>
  The try block of the broadcast for one client: the bathymetry grid of
  \<open>(gridSize[1]-1) \<times> (gridSize[0]-1)\<close> samples, the water level grid of
  \<open>gridSize[1] \<times> gridSize[0]\<close> samples, the flush.
\<close>

definition sendGrids ::
  "int \<times> int \<Rightarrow> real \<times> real \<Rightarrow> GridBuffers \<Rightarrow> TCPPipe \<Rightarrow> (error + unit) \<times> TCPPipe" where
  "sendGrids gs er gb clientPipe0 =
     (case forLoop 0 (snd gs - 1)
             (\<lambda>y. forLoop 0 (fst gs - 1) (\<lambda>x. sendSample er (bathymetry gb)))
             (0, clientPipe0) of
        (Inl e, (bPtr, p)) \<Rightarrow> (Inl e, p)
      | (Inr _, (bPtr, p)) \<Rightarrow>
          (case forLoop 0 (snd gs)
                  (\<lambda>y. forLoop 0 (fst gs) (\<lambda>x. sendSample er (waterLevel gb)))
                  (0, p) of
             (Inl e, (wlPtr, p')) \<Rightarrow> (Inl e, p')
           | (Inr _, (wlPtr, p')) \<Rightarrow> flush p'))"

text \<open>
  The loop over the client list: each client in streaming state is sent the grids; a
  client whose try block throws is appended to \<open>deadClients\<close>. The list itself is not
  changed while it is walked.
\<close>

fun sendToClients ::
  "addr list \<Rightarrow> GridBuffers \<Rightarrow> RemoteServer \<Rightarrow> addr list \<Rightarrow> addr list \<times> RemoteServer" where
  "sendToClients [] gb s deadClients = (deadClients, s)"
| "sendToClients (cIt # rest) gb s deadClients =
     (if state (deref s cIt) = STREAMING
      then (case sendGrids (gridSize s) (elevationRange s) gb (clientPipe (deref s cIt)) of
              (Inl err, p) \<Rightarrow>
                sendToClients rest gb (store cIt ((deref s cIt)\<lparr>clientPipe := p\<rparr>) s)
                  (deadClients @ [cIt])
            | (Inr _, p) \<Rightarrow>
                sendToClients rest gb (store cIt ((deref s cIt)\<lparr>clientPipe := p\<rparr>) s)
                  deadClients)
      else sendToClients rest gb s deadClients)"

text \<open>
  The body of \<^verbatim>\<open>if(grids.lockNewValue())\<close> for the locked pair of grids \<open>gb\<close>: the send
  loop, then \<^verbatim>\<open>disconnectClient(*dcIt,true)\<close> for every dead client. (The list of client
  positions that the thread also publishes on every iteration feeds the rendering and is
  not modelled.)
\<close>

definition broadcast :: "GridBuffers \<Rightarrow> RemoteServer \<Rightarrow> RemoteServer" where
  "broadcast gb s =
     (case sendToClients (clients s) gb s [] of
        (deadClients, s') \<Rightarrow> fold (\<lambda>dc. disconnectClient dc True) deadClients s')"

subsection \<open>The states the server can reach\<close>

text \<open>
  The communication thread is the only one that changes the state above. From the state
  the constructor leaves, each event it dispatches is one of: a connection attempt (the
  allocator hands out an address that no live client has, the dispatcher a key that is
  not registered), a message for a client of the list, or a new pair of grids.
\<close>

inductive reachable :: "RemoteServer \<Rightarrow> bool" where
  constructed: "reachable (RemoteServer_new tableSize tableCell domain listenKey)"
| connection:
    "reachable s \<Longrightarrow> a \<notin> dom (heap s) \<Longrightarrow> key \<notin> listeners s \<Longrightarrow>
     reachable (snd (newConnectionCallback f32 a key conn s))"
| message:
    "reachable s \<Longrightarrow> client \<in> set (clients s) \<Longrightarrow> reachable (dispatchClientEvent client s)"
| newGrids: "reachable s \<Longrightarrow> reachable (broadcast gb s)"

text \<open>The clients of the list that are in streaming state, in list order.\<close>

definition streamingClients :: "RemoteServer \<Rightarrow> addr list" where
  "streamingClients s = filter (\<lambda>a. state (deref s a) = STREAMING) (clients s)"

text \<open>
  The invariant of the reachable states: the list has no client twice, the listed
  clients are exactly the live ones, the counter is the number of listed clients in
  streaming state (as an unsigned 32-bit number), and a client that has not passed the
  endianness check reads without byte swap.
\<close>

definition wellFormed :: "RemoteServer \<Rightarrow> bool" where
  "wellFormed s \<longleftrightarrow>
     distinct (clients s) \<and> dom (heap s) = set (clients s) \<and>
     numClients s = of_nat (length (streamingClients s)) \<and>
     (\<forall>a \<in> set (clients s). state (deref s a) = START \<longrightarrow> \<not> swapOnRead (clientPipe (deref s a)))"

text \<open>
  The broadcast of \<open>gb\<close>, client by client: \<open>throwsFor\<close> tells whether the try block
  throws for the client (it is in streaming state and \<open>sendGrids\<close> fails on its pipe),
  \<open>sentTo\<close> is the client object after its try block, \<open>afterSend\<close> the server after the
  send loop, and \<open>failingClients\<close> the clients the loop puts on \<open>deadClients\<close>.
\<close>

definition sentTo :: "GridBuffers \<Rightarrow> RemoteServer \<Rightarrow> addr \<Rightarrow> Client" where
  "sentTo gb s a =
     (deref s a)\<lparr>clientPipe :=
        snd (sendGrids (gridSize s) (elevationRange s) gb (clientPipe (deref s a)))\<rparr>"

definition throwsFor :: "GridBuffers \<Rightarrow> RemoteServer \<Rightarrow> addr \<Rightarrow> bool" where
  "throwsFor gb s a \<longleftrightarrow>
     state (deref s a) = STREAMING \<and>
     isl (fst (sendGrids (gridSize s) (elevationRange s) gb (clientPipe (deref s a))))"

definition afterSend :: "GridBuffers \<Rightarrow> RemoteServer \<Rightarrow> RemoteServer" where
  "afterSend gb s =
     s\<lparr>heap := (\<lambda>a. if a \<in> set (clients s) \<and> state (deref s a) = STREAMING
                      then Some (sentTo gb s a) else heap s a)\<rparr>"

definition failingClients :: "GridBuffers \<Rightarrow> RemoteServer \<Rightarrow> addr list" where
  "failingClients gb s = filter (throwsFor gb s) (clients s)"

section \<open>Descriptions of the snapshot message\<close>

text \<open>
  Writing a list of codes one after the other, and reading a number of codes one after
  the other: the loops of \<open>sendGrids\<close> and \<open>readGrids\<close> are compared with these.
\<close>

fun writeCodes :: "16 word list \<Rightarrow> TCPPipe \<Rightarrow> (error + unit) \<times> TCPPipe" where
  "writeCodes [] p = (Inr (), p)"
| "writeCodes (k # ks) p =
     (case write_UInt16 k p of
        (Inl e, p') \<Rightarrow> (Inl e, p')
      | (Inr _, p') \<Rightarrow> writeCodes ks p')"

fun readCodes :: "nat \<Rightarrow> TCPPipe \<Rightarrow> (error + 16 word list) \<times> TCPPipe" where
  "readCodes 0 p = (Inr [], p)"
| "readCodes (Suc n) p =
     (case read_UInt16 p of
        (Inl e, p') \<Rightarrow> (Inl e, p')
      | (Inr k, p') \<Rightarrow>
          (case readCodes n p' of
             (Inl e, p'') \<Rightarrow> (Inl e, p'')
           | (Inr ks, p'') \<Rightarrow> (Inr (k # ks), p'')))"

text \<open>
  The codes of one snapshot message as the spec describes it: the \<open>(W-1)(H-1)\<close> samples
  of surface A in row-major order, then the \<open>W H\<close> samples of surface B in row-major
  order, each quantized; and the bytes of the message, two for each code.
\<close>

definition snapshotCodes :: "int \<times> int \<Rightarrow> real \<times> real \<Rightarrow> GridBuffers \<Rightarrow> 16 word list" where
  "snapshotCodes gs er gb =
     map (quantize er) (take (nat ((fst gs - 1) * (snd gs - 1))) (bathymetry gb)) @
     map (quantize er) (take (nat (fst gs * snd gs)) (waterLevel gb))"

definition snapshotBytes :: "int \<times> int \<Rightarrow> real \<times> real \<Rightarrow> GridBuffers \<Rightarrow> byte list" where
  "snapshotBytes gs er gb = concat (map hostBytes16 (snapshotCodes gs er gb))"

text \<open>The result of a send loop without the running pointer.\<close>

definition dropPtr :: "(error + unit) \<times> (nat \<times> TCPPipe) \<Rightarrow> (error + unit) \<times> TCPPipe" where
  "dropPtr r = (fst r, snd (snd r))"

text \<open>The codes held by a sequence of bytes, two bytes for each code.\<close>

fun wireCodes :: "bool \<Rightarrow> byte list \<Rightarrow> 16 word list" where
  "wireCodes swap (a # b # rest) = hostValue swap [a, b] # wireCodes swap rest"
| "wireCodes swap _ = []"

text \<open>The grid with the \<open>n\<close> samples from \<open>ptr\<close> on replaced by the values \<open>vs\<close>.\<close>

definition filled :: "real list \<Rightarrow> nat \<Rightarrow> real list \<Rightarrow> real list" where
  "filled grid ptr vs = take ptr grid @ vs @ drop (ptr + length vs) grid"

section \<open>SandboxClient\<close>

subsection \<open>State\<close>

text \<open>
  Modelled from the spec: \<^verbatim>\<open>Threads::TripleBuffer\<close> is not part of the sources. Three
  slots; the writer takes the slot that is neither locked by the reader nor the most
  recently posted one, fills it and posts it; the reader locks the most recently posted
  slot and learns whether it is a new one.
\<close>

record 'a TripleBuffer =
  buffer :: "'a list"
  lockedIndex :: nat
  mostRecentIndex :: nat
  nextIndex :: nat

definition startNewValue :: "'a TripleBuffer \<Rightarrow> 'a TripleBuffer" where
  "startNewValue tb =
     (let n = (lockedIndex tb + 1) mod 3
      in tb\<lparr>nextIndex := (if n = mostRecentIndex tb then (n + 1) mod 3 else n)\<rparr>)"

definition postNewValue :: "'a TripleBuffer \<Rightarrow> 'a TripleBuffer" where
  "postNewValue tb = tb\<lparr>mostRecentIndex := nextIndex tb\<rparr>"

definition lockNewValue :: "'a TripleBuffer \<Rightarrow> bool \<times> 'a TripleBuffer" where
  "lockNewValue tb =
     (lockedIndex tb \<noteq> mostRecentIndex tb, tb\<lparr>lockedIndex := mostRecentIndex tb\<rparr>)"

definition getLockedValue :: "'a TripleBuffer \<Rightarrow> 'a" where
  "getLockedValue tb = buffer tb ! lockedIndex tb"

text \<open>
  The part of \<^verbatim>\<open>class SandboxClient\<close> that the protocol and the intersection work on.
  \<open>pipe\<close> is \<open>None\<close> once the pipe has been deleted; \<open>listening\<close> tells whether
  \<^verbatim>\<open>serverMessageCallback\<close> is registered with the client's dispatcher. The geometry
  fields carry the prefix \<open>sc\<close> to keep them apart from the server's.
\<close>

record SandboxClient =
  pipe :: "TCPPipe option"
  sc_gridSize :: "int \<times> int"
  sc_cellSize :: "real \<times> real"
  sc_elevationRange :: "real \<times> real"
  listening :: bool
  grids :: "GridBuffers TripleBuffer"

subsection \<open>readGrids\<close>

text \<open>
  One sample: read a code, dequantize it, store it where the running pointer points,
  advance the pointer. The loop state is the pointer, the grid being filled and the pipe.
\<close>

definition receiveSample ::
  "real \<times> real \<Rightarrow> nat \<times> real list \<times> TCPPipe \<Rightarrow>
   (error + unit) \<times> (nat \<times> real list \<times> TCPPipe)" where
  "receiveSample er st =
     (case st of (ptr, grid, p) \<Rightarrow>
        (case read_UInt16 p of
           (Inl e, p') \<Rightarrow> (Inl e, (ptr, grid, p'))
         | (Inr k, p') \<Rightarrow> (Inr (), (ptr + 1, grid[ptr := dequantize er k], p'))))"

text \<open>
  \<^verbatim>\<open>readGrids\<close>: start a new value in the triple buffer, fill its bathymetry grid and
  then its water level grid from the pipe, post the value. An exception leaves the
  function before the post, with the slot filled as far as the read got.
\<close>

definition readGrids :: "SandboxClient \<Rightarrow> (error + unit) \<times> SandboxClient" where
  "readGrids thisPtr =
     (let tb = startNewValue (grids thisPtr);
          gb = buffer tb ! nextIndex tb;
          gs = sc_gridSize thisPtr;
          er = sc_elevationRange thisPtr
      in case forLoop 0 (snd gs - 1) (\<lambda>y. forLoop 0 (fst gs - 1) (\<lambda>x. receiveSample er))
                (0, bathymetry gb, the (pipe thisPtr)) of
           (Inl e, (bPtr, b, p)) \<Rightarrow>
             (Inl e, thisPtr\<lparr>pipe := Some p,
                       grids := tb\<lparr>buffer := (buffer tb)[nextIndex tb := gb\<lparr>bathymetry := b\<rparr>]\<rparr>\<rparr>)
         | (Inr _, (bPtr, b, p)) \<Rightarrow>
             (case forLoop 0 (snd gs) (\<lambda>y. forLoop 0 (fst gs) (\<lambda>x. receiveSample er))
                     (0, waterLevel gb, p) of
                (Inl e, (wlPtr, w, p')) \<Rightarrow>
                  (Inl e, thisPtr\<lparr>pipe := Some p',
                            grids := tb\<lparr>buffer := (buffer tb)[nextIndex tb :=
                                       gb\<lparr>bathymetry := b, waterLevel := w\<rparr>]\<rparr>\<rparr>)
              | (Inr _, (wlPtr, w, p')) \<Rightarrow>
                  (Inr (), thisPtr\<lparr>pipe := Some p',
                            grids := postNewValue
                              (tb\<lparr>buffer := (buffer tb)[nextIndex tb :=
                                       gb\<lparr>bathymetry := b, waterLevel := w\<rparr>]\<rparr>)\<rparr>)))"

subsection \<open>serverMessageCallback\<close>

text \<open>
  \<^verbatim>\<open>
  try { thisPtr->readGrids(); Vrui::requestUpdate(); }
  catch(const std::runtime_error& err) { }
  return false;
  \<close>
  The handler is empty and both paths return \<^verbatim>\<open>false\<close>. (The wake-up of the main
  thread is not modelled.)
\<close>

definition serverMessageCallback :: "SandboxClient \<Rightarrow> bool \<times> SandboxClient" where
  "serverMessageCallback thisPtr =
     (case readGrids thisPtr of
        (Inl err, thisPtr') \<Rightarrow> (False, thisPtr')
      | (Inr _, thisPtr') \<Rightarrow> (False, thisPtr'))"

text \<open>
  Modelled from the spec: the client's dispatcher (\<^verbatim>\<open>Threads::EventDispatcher\<close>, not part
  of the sources) deregisters a listener whose callback returns \<^verbatim>\<open>true\<close>.
\<close>

definition dispatchServerEvent :: "SandboxClient \<Rightarrow> SandboxClient" where
  "dispatchServerEvent thisPtr =
     (case serverMessageCallback thisPtr of
        (remove, thisPtr') \<Rightarrow> if remove then thisPtr'\<lparr>listening := False\<rparr> else thisPtr')"

subsection \<open>intersectLine\<close>

type_synonym Point = "real \<times> real \<times> real"

definition coord :: "Point \<Rightarrow> nat \<Rightarrow> real" where
  "coord p i = (case p of (x, y, z) \<Rightarrow> if i = 0 then x else if i = 1 then y else z)"

definition axis :: "int \<times> int \<Rightarrow> nat \<Rightarrow> int" where
  "axis v i = (if i = 0 then fst v else snd v)"

definition setAxis :: "int \<times> int \<Rightarrow> nat \<Rightarrow> int \<Rightarrow> int \<times> int" where
  "setAxis v i x = (if i = 0 then (x, snd v) else (fst v, x))"

text \<open>
  The result of a \<^verbatim>\<open>Scalar\<close> division. A division by zero does not trap: it yields a
  NaN when the numerator is zero as well and an infinity otherwise. The sign of the
  infinity depends on the sign of the zero, which the reals do not have, so it is not
  tracked.
\<close>

datatype scalar = Finite real | Infinite | NaN

definition fdiv :: "real \<Rightarrow> real \<Rightarrow> scalar" where
  "fdiv x y = (if y \<noteq> 0 then Finite (x / y) else if x \<noteq> 0 then Infinite else NaN)"

text \<open>
  \<^verbatim>\<open>il<cl0\<close>. A comparison with a NaN is false. No infinity reaches this test (lemma
  \<open>quadratic_candidate_not_Infinite\<close> below), where it too is given the value false.
\<close>

definition scalar_less :: "scalar \<Rightarrow> real \<Rightarrow> bool" where
  "scalar_less il x = (case il of Finite y \<Rightarrow> y < x | Infinite \<Rightarrow> False | NaN \<Rightarrow> False)"

text \<open>
  \<^verbatim>\<open>if(il>=cl0&&il<cl1) return il;\<close> An infinity fails one of the two comparisons
  whatever its sign, a NaN fails both.
\<close>

definition validIntersection :: "scalar \<Rightarrow> real \<Rightarrow> real \<Rightarrow> real option" where
  "validIntersection il cl0 cl1 =
     (case il of
        Finite x \<Rightarrow> if x \<ge> cl0 \<and> x < cl1 then Some x else None
      | Infinite \<Rightarrow> None
      | NaN \<Rightarrow> None)"

text \<open>
  Clipping against the lower boundary \<open>b\<close> of one axis and against the upper one. \<open>None\<close>
  is the \<^verbatim>\<open>return Scalar(1)\<close> of a segment that lies outside. The divisions are by a
  difference of two coordinates that the tests before them keep apart.
\<close>

definition clipLower ::
  "real \<Rightarrow> real \<Rightarrow> real \<Rightarrow> real \<Rightarrow> real \<times> real \<Rightarrow> (real \<times> real) option" where
  "clipLower b g0 g1 gd l =
     (if g0 < b
      then (if g1 > b then Some (max (fst l) ((b - g0) / gd), snd l) else None)
      else if g1 < b
      then (if g0 > b then Some (fst l, min (snd l) ((b - g0) / gd)) else None)
      else Some l)"

definition clipUpper ::
  "real \<Rightarrow> real \<Rightarrow> real \<Rightarrow> real \<Rightarrow> real \<times> real \<Rightarrow> (real \<times> real) option" where
  "clipUpper b g0 g1 gd l =
     (if g0 > b
      then (if g1 < b then Some (max (fst l) ((b - g0) / gd), snd l) else None)
      else if g1 > b
      then (if g0 < b then Some (fst l, min (snd l) ((b - g0) / gd)) else None)
      else Some l)"

definition clipAxis ::
  "int \<times> int \<Rightarrow> Point \<Rightarrow> Point \<Rightarrow> Point \<Rightarrow> nat \<Rightarrow> real \<times> real \<Rightarrow> (real \<times> real) option" where
  "clipAxis gs gp0 gp1 gd i l =
     (case clipLower 0 (coord gp0 i) (coord gp1 i) (coord gd i) l of
        None \<Rightarrow> None
      | Some l' \<Rightarrow>
          clipUpper (of_int (axis gs i - 2)) (coord gp0 i) (coord gp1 i) (coord gd i) l')"

definition clipSegment ::
  "int \<times> int \<Rightarrow> Point \<Rightarrow> Point \<Rightarrow> Point \<Rightarrow> (real \<times> real) option" where
  "clipSegment gs gp0 gp1 gd =
     (case clipAxis gs gp0 gp1 gd 0 (0, 1) of
        None \<Rightarrow> None
      | Some l \<Rightarrow> clipAxis gs gp0 gp1 gd 1 l)"

text \<open>\<^verbatim>\<open>Math::clamp\<close> (Vrui): the value, moved into \<open>[lo, hi]\<close>, the lower bound tested first.\<close>

definition clamp :: "int \<Rightarrow> int \<Rightarrow> int \<Rightarrow> int" where
  "clamp v lo hi = (if v < lo then lo else if v > hi then hi else v)"

text \<open>\<^verbatim>\<open>Geometry::affineCombination(p0,p1,w)\<close> (Vrui): \<open>p0 * (1 - w) + p1 * w\<close> by components.\<close>

definition affineCombination :: "Point \<Rightarrow> Point \<Rightarrow> real \<Rightarrow> Point" where
  "affineCombination p q w =
     (coord p 0 * (1 - w) + coord q 0 * w,
      coord p 1 * (1 - w) + coord q 1 * w,
      coord p 2 * (1 - w) + coord q 2 * w)"

text \<open>
  One round of the loop that finds where the segment leaves the current cell: the exit
  parameter so far and the exit axis so far (\<open>-1\<close> for none), updated for axis \<open>i\<close>.
\<close>

definition leaveCell ::
  "Point \<Rightarrow> Point \<Rightarrow> Point \<Rightarrow> int \<times> int \<Rightarrow> nat \<Rightarrow> real \<times> int \<Rightarrow> real \<times> int" where
  "leaveCell gp0 gp1 gd cp i st =
     (let cl1 = fst st;
          el = (if coord gp0 i < coord gp1 i
                then (of_int (axis cp i + 1) - coord gp0 i) / coord gd i
                else if coord gp0 i > coord gp1 i
                then (of_int (axis cp i) - coord gp0 i) / coord gd i
                else cl1)
      in if cl1 > el then (el, int i) else st)"

text \<open>
  The four corner samples of the cell \<open>cp\<close>: \<^verbatim>\<open>cell[0]\<close>, \<^verbatim>\<open>cell[1]\<close>,
  \<^verbatim>\<open>cell[gridSize[0]-1]\<close>, \<^verbatim>\<open>cell[gridSize[0]]\<close> from
  \<^verbatim>\<open>cell=bathymetry+(cp[1]*(gridSize[0]-1)+cp[0])\<close>. A read outside the array is undefined
  behaviour in C++; here it is \<open>None\<close>.
\<close>

definition peek :: "real list \<Rightarrow> int \<Rightarrow> real option" where
  "peek xs i = (if 0 \<le> i \<and> i < int (length xs) then Some (xs ! nat i) else None)"

definition cellCorners ::
  "real list \<Rightarrow> int \<times> int \<Rightarrow> int \<times> int \<Rightarrow> (real \<times> real \<times> real \<times> real) option" where
  "cellCorners bathy gs cp =
     (let cell = snd cp * (fst gs - 1) + fst cp
      in case (peek bathy cell, peek bathy (cell + 1),
               peek bathy (cell + (fst gs - 1)), peek bathy (cell + fst gs)) of
           (Some c0, Some c1, Some c2, Some c3) \<Rightarrow> Some (c0, c1, c2, c3)
         | _ \<Rightarrow> None)"

text \<open>The coefficients \<open>a\<close>, \<open>b\<close>, \<open>c\<close> of the equation for the cell, as the code computes them.\<close>

definition cellEquation ::
  "real \<times> real \<times> real \<times> real \<Rightarrow> int \<times> int \<Rightarrow> Point \<Rightarrow> Point \<Rightarrow> real \<times> real \<times> real" where
  "cellEquation corners cp gp0 gd =
     (case corners of (c0, c1, c2, c3) \<Rightarrow>
        let cx0 = of_int (fst cp);
            cx1 = of_int (fst cp + 1);
            cy0 = of_int (snd cp);
            cy1 = of_int (snd cp + 1);
            fxy = c0 - c1 + c3 - c2;
            fx = (c1 - c0) * cy1 - (c3 - c2) * cy0;
            fy = (c2 - c0) * cx1 - (c3 - c1) * cx0;
            f = (c0 * cx1 - c1 * cx0) * cy1 - (c2 * cx1 - c3 * cx0) * cy0;
            a = fxy * coord gd 0 * coord gd 1;
            bc0 = fxy * coord gp0 1 + fx;
            bc1 = fxy * coord gp0 0 + fy;
            b = bc0 * coord gd 0 + bc1 * coord gd 1 - coord gd 2;
            c = bc0 * coord gp0 0 + bc1 * coord gp0 1 - coord gp0 2
                - fxy * coord gp0 0 * coord gp0 1 + f
        in (a, b, c))"

text \<open>
  The candidate \<open>il\<close>: initially \<open>cl1\<close>; for \<open>a \<noteq> 0\<close> and a non-negative discriminant
  the smaller root first and the other root if the first lies before \<open>cl0\<close>; for \<open>a = 0\<close>
  the quotient \<open>-c/b\<close>, whatever \<open>b\<close> is.
\<close>

definition solveCell :: "real \<Rightarrow> real \<Rightarrow> real \<Rightarrow> real \<Rightarrow> real \<Rightarrow> scalar" where
  "solveCell a b c cl0 cl1 =
     (if a \<noteq> 0
      then (if b * b - 4 * a * c \<ge> 0
            then (let det = sqrt (b * b - 4 * a * c)
                  in if a > 0
                     then (let il = (if b \<ge> 0 then fdiv (- b - det) (2 * a)
                                     else fdiv (2 * c) (- b + det))
                           in if scalar_less il cl0
                              then (if b \<ge> 0 then fdiv (2 * c) (- b - det)
                                    else fdiv (- b + det) (2 * a))
                              else il)
                     else (let il = (if b \<ge> 0 then fdiv (2 * c) (- b - det)
                                     else fdiv (- b + det) (2 * a))
                           in if scalar_less il cl0
                              then (if b \<ge> 0 then fdiv (- b - det) (2 * a)
                                    else fdiv (2 * c) (- b + det))
                              else il))
            else Finite cl1)
      else fdiv (- c) b)"

text \<open>\<^verbatim>\<open>if(exit>=0) { if(gd[exit]<Scalar(0)) --cp[exit]; else ++cp[exit]; }\<close>\<close>

definition nextCell :: "Point \<Rightarrow> int \<times> int \<Rightarrow> int \<Rightarrow> int \<times> int" where
  "nextCell gd cp exit =
     (if exit \<ge> 0
      then (if coord gd (nat exit) < 0
            then setAxis cp (nat exit) (axis cp (nat exit) - 1)
            else setAxis cp (nat exit) (axis cp (nat exit) + 1))
      else cp)"

text \<open>
  What \<^verbatim>\<open>intersectLine\<close> does: it returns a parameter, or it reads outside the
  bathymetry array.
\<close>

datatype outcome = Returns real | ReadsOutside

text \<open>
  The loop \<^verbatim>\<open>while(cl0<l1)\<close> over the cells along the segment. The loop is not known to
  end for every input, so the function is partial: \<open>None\<close> stands for a loop that runs
  forever.
\<close>

partial_function (option) cellWalk ::
  "real list \<Rightarrow> int \<times> int \<Rightarrow> Point \<Rightarrow> Point \<Rightarrow> Point \<Rightarrow> real \<Rightarrow> int \<times> int \<Rightarrow> real \<Rightarrow>
   outcome option" where
  "cellWalk bathy gs gp0 gp1 gd l1 cp cl0 =
     (if cl0 < l1
      then (case leaveCell gp0 gp1 gd cp 1 (leaveCell gp0 gp1 gd cp 0 (l1, - 1)) of
              (cl1, exit) \<Rightarrow>
                (case cellCorners bathy gs cp of
                   None \<Rightarrow> Some ReadsOutside
                 | Some corners \<Rightarrow>
                     (case cellEquation corners cp gp0 gd of
                        (a, b, c) \<Rightarrow>
                          (case validIntersection (solveCell a b c cl0 cl1) cl0 cl1 of
                             Some il \<Rightarrow> Some (Returns il)
                           | None \<Rightarrow>
                               cellWalk bathy gs gp0 gp1 gd l1 (nextCell gd cp exit) cl1))))
      else Some (Returns 1))"

definition gridPoint :: "real \<times> real \<Rightarrow> Point \<Rightarrow> Point" where
  "gridPoint cs p = (coord p 0 / fst cs - 0.5, coord p 1 / snd cs - 0.5, coord p 2)"

definition intersectLine :: "SandboxClient \<Rightarrow> Point \<Rightarrow> Point \<Rightarrow> outcome option" where
  "intersectLine thisPtr p0 p1 =
     (let gp0 = gridPoint (sc_cellSize thisPtr) p0;
          gp1 = gridPoint (sc_cellSize thisPtr) p1;
          gd = (coord gp1 0 - coord gp0 0, coord gp1 1 - coord gp0 1, coord gp1 2 - coord gp0 2);
          gs = sc_gridSize thisPtr
      in case clipSegment gs gp0 gp1 gd of
           None \<Rightarrow> Some (Returns 1)
         | Some (l0, l1) \<Rightarrow>
             if l0 \<ge> l1 then Some (Returns 1)
             else (let gp = affineCombination gp0 gp1 l0;
                       cp = (clamp \<lfloor>coord gp 0\<rfloor> 0 (fst gs - 3),
                             clamp \<lfloor>coord gp 1\<rfloor> 0 (snd gs - 3))
                   in cellWalk (bathymetry (getLockedValue (grids thisPtr))) gs gp0 gp1 gd l1
                        cp l0))"

section \<open>Concrete states\<close>

text \<open>
  A client with a \<open>3 \<times> 3\<close> grid of unit cells whose bathymetry is flat at elevation 0.
\<close>

definition flatClient :: SandboxClient where
  "flatClient =
     \<lparr>pipe = None, sc_gridSize = (3, 3), sc_cellSize = (1, 1), sc_elevationRange = (0, 1),
      listening = False,
      grids = \<lparr>buffer = replicate 3 \<lparr>bathymetry = replicate 4 0, waterLevel = replicate 9 0\<rparr>,
               lockedIndex = 0, mostRecentIndex = 0, nextIndex = 0\<rparr>\<rparr>"

text \<open>
  A server with a \<open>2 \<times> 2\<close> grid and five clients. Clients 7, 8 and 9 await the
  endianness token: 7 is about to receive 0x12345678 as the server reads it, 8 the same
  token from a host of the other byte order, 9 something else. Clients 10 and 11 are
  streaming: 10 is about to receive a position update (position (1, 2, 3), direction
  (0, 0, -1)), 11 a message with the tag 5; the connection of 11 breaks after three more
  bytes.
\<close>

definition exampleClient ::
  "byte list \<Rightarrow> nat option \<Rightarrow> ListenerKey \<Rightarrow> ClientStates \<Rightarrow> Client" where
  "exampleClient incoming limit key st =
     \<lparr>clientPipe = TCPPipe_new incoming limit, listenerKey = key, state = st,
      position = None, direction = None\<rparr>"

definition poseMessage :: "byte list" where
  "poseMessage =
     [0, 0,
      0, 0, 0x80, 0x3F,  0, 0, 0, 0x40,  0, 0, 0x40, 0x40,
      0, 0, 0, 0,  0, 0, 0, 0,  0, 0, 0x80, 0xBF]"

definition exampleServer :: RemoteServer where
  "exampleServer =
     \<lparr>gridSize = (2, 2), cellSize = (1, 1), elevationRange = (0, 1),
      listeners = {0, 1, 2, 3, 4, 5},
      clients = [7, 8, 9, 10, 11],
      heap = [7 \<mapsto> exampleClient [0x78, 0x56, 0x34, 0x12] None 1 START,
              8 \<mapsto> exampleClient [0x12, 0x34, 0x56, 0x78] None 2 START,
              9 \<mapsto> exampleClient [1, 2, 3, 4] None 3 START,
              10 \<mapsto> exampleClient poseMessage None 4 STREAMING,
              11 \<mapsto> exampleClient [5, 0] (Some 3) 5 STREAMING],
      numClients = 2\<rparr>"

definition exampleGrids :: GridBuffers where
  "exampleGrids = \<lparr>bathymetry = [1/2], waterLevel = [0, 1/4, 1/2, 1]\<rparr>"

definition greetedServer :: RemoteServer where
  "greetedServer =
     snd (newConnectionCallback (\<lambda>x. 0) 7 1 (Some ([0x78, 0x56, 0x34, 0x12], None))
            (RemoteServer_new (2, 2) (1, 1) (0, 1) 0))"

definition streamingServer :: RemoteServer where
  "streamingServer = dispatchClientEvent 7 greetedServer"

text \<open>
  A viewer of a \<open>2 \<times> 2\<close> grid with elevations between 0 and 1 that is about to receive
  one snapshot message (the one the server sends for \<open>exampleGrids\<close>) and one more byte;
  and the same viewer on a connection that ends after three bytes.
\<close>

definition exampleViewer :: SandboxClient where
  "exampleViewer =
     \<lparr>pipe = Some (TCPPipe_new [0, 0x80,  0, 0,  0, 0x40,  0, 0x80,  0xFF, 0xFF,  9] None),
      sc_gridSize = (2, 2), sc_cellSize = (1, 1), sc_elevationRange = (0, 1),
      listening = True,
      grids = \<lparr>buffer = replicate 3 \<lparr>bathymetry = [0], waterLevel = [0, 0, 0, 0]\<rparr>,
               lockedIndex = 0, mostRecentIndex = 0, nextIndex = 0\<rparr>\<rparr>"

definition truncatedViewer :: SandboxClient where
  "truncatedViewer = exampleViewer\<lparr>pipe := Some (TCPPipe_new [0, 0x80,  0] None)\<rparr>"

section \<open>Lemmas on the quantization\<close>

subsection \<open>Rounding\<close>

lemma roundEven_error: "\<bar>of_int (roundEven y) - y\<bar> \<le> 1/2"
  unfolding roundEven_def Let_def by (auto simp: abs_if) linarith+

lemma quantum_pos: "0 < q \<Longrightarrow> 0 < quantum n q x"
  by (induction n arbitrary: q) simp_all

lemma quantum_low: "quantum n q x = q \<or> 2^23 * quantum n q x \<le> x"
proof (induction n arbitrary: q)
  case 0
  then show ?case by simp
next
  case (Suc n)
  show ?case
  proof (cases "2^24 * q \<le> x")
    case True
    from Suc [of "2 * q"] True show ?thesis by auto
  next
    case False
    then show ?thesis by simp
  qed
qed

text \<open>The search stops at the \<open>m\<close>-th doubling when \<open>x\<close> lies in the \<open>m\<close>-th binade.\<close>

lemma quantum_steps:
  assumes "0 < q" "m = 0 \<or> 2^23 * (q * 2^m) \<le> x" "x < 2^24 * (q * 2^m)" "m \<le> n"
  shows "quantum n q x = q * 2^m"
  using assms
proof (induction m arbitrary: q n)
  case 0
  then show ?case by (cases n) simp_all
next
  case (Suc m)
  from Suc.prems obtain n' where n: "n = Suc n'" "m \<le> n'" by (cases n) simp_all
  have "q \<le> q * 2^m" using Suc.prems(1) by simp
  hence "2^24 * q \<le> 2^24 * (q * 2^m)" by simp
  also have "\<dots> \<le> x" using Suc.prems(2) by simp
  finally have step: "2^24 * q \<le> x" .
  have "quantum n' (2 * q) x = 2 * q * 2^m"
  proof (rule Suc.IH)
    show "0 < 2 * q" using Suc.prems(1) by simp
    show "m = 0 \<or> 2^23 * (2 * q * 2^m) \<le> x" using Suc.prems(2) by simp
    show "x < 2^24 * (2 * q * 2^m)" using Suc.prems(3) by simp
    show "m \<le> n'" by (rule n(2))
  qed
  thus ?case using step n by simp
qed

lemma ulp32_pos: "0 < ulp32 x"
  unfolding ulp32_def by (rule quantum_pos) simp

lemma ulp32_low: "ulp32 x = 1 / 2^149 \<or> 2^23 * ulp32 x \<le> \<bar>x\<bar>"
  unfolding ulp32_def by (rule quantum_low)

lemma ulp32_eq:
  assumes "m = 0 \<or> 2^m / 2^126 \<le> \<bar>x\<bar>" "\<bar>x\<bar> < 2^m / 2^125" "m \<le> 253"
  shows "ulp32 x = 2^m / 2^149"
proof -
  have "quantum 253 (1 / 2^149) \<bar>x\<bar> = 1 / 2^149 * 2^m"
    by (rule quantum_steps) (use assms in \<open>simp_all add: field_simps\<close>)
  thus ?thesis by (simp add: ulp32_def)
qed

text \<open>The rounding of a value of the \<open>m\<close>-th binade, for the evaluation of examples.\<close>

lemma nearest32_eval:
  assumes "m = 0 \<or> 2^m / 2^126 \<le> \<bar>x\<bar>" "\<bar>x\<bar> < 2^m / 2^125" "m \<le> 253"
  shows "nearest32 x = 2^m / 2^149 * of_int (roundEven (x / (2^m / 2^149)))"
  unfolding nearest32_def ulp32_eq [OF assms] by (rule refl)

subsection \<open>Roundings of the examples\<close>

lemma example_rounding:
  "nearest32 1 = 1"
  "nearest32 65535 = 65535"
  "nearest32 19660500 = 19660500"
  "nearest32 (- (39320999 / 2)) = - 19660500"
  "nearest32 (646381207575 / 32768) = 19725990"
  "nearest32 65490 = 65490"
  "nearest32 (1 / 65535) = 65537 / 4294967296"
  "nearest32 (2146009065 / 2147483648) = 65491 / 65536"
  "nearest32 (19726291 / 65536) = 4931573 / 16384"
  using nearest32_eval [of 126 1] nearest32_eval [of 141 65535]
    nearest32_eval [of 150 19660500] nearest32_eval [of 150 "- (39320999 / 2)"]
    nearest32_eval [of 150 "646381207575 / 32768"] nearest32_eval [of 141 65490]
    nearest32_eval [of 110 "1 / 65535"] nearest32_eval [of 125 "2146009065 / 2147483648"]
    nearest32_eval [of 134 "19726291 / 65536"]
  by (simp_all add: roundEven_def)

lemma example_rounding01:
  "nearest32 0 = 0"
  "nearest32 (1 / 2) = 1 / 2"
  "nearest32 (65535 / 2) = 65535 / 2"
  "nearest32 32768 = 32768"
  "nearest32 (65535 / 4) = 65535 / 4"
  "nearest32 (65537 / 4) = 65537 / 4"
  "nearest32 (131071 / 2) = 131071 / 2"
  "nearest32 (65537 / 131072) = 65537 / 131072"
  "nearest32 (65537 / 262144) = 65537 / 262144"
  "nearest32 (4294967295 / 4294967296) = 1"
  using nearest32_eval [of 0 0] nearest32_eval [of 125 "1 / 2"]
    nearest32_eval [of 140 "65535 / 2"] nearest32_eval [of 141 32768]
    nearest32_eval [of 139 "65535 / 4"] nearest32_eval [of 140 "65537 / 4"]
    nearest32_eval [of 141 "131071 / 2"] nearest32_eval [of 125 "65537 / 131072"]
    nearest32_eval [of 124 "65537 / 262144"] nearest32_eval [of 125 "4294967295 / 4294967296"]
  by (simp_all add: roundEven_def)

lemma example_rounding257:
  "nearest32 257 = 257"
  "nearest32 (1 / 255) = 8421505 / 2147483648"
  "nearest32 (8421505 / 2147483648) = 8421505 / 2147483648"
  "nearest32 (16843009 / 4294967296) = 65793 / 16777216"
  "nearest32 (65793 / 16777216) = 65793 / 16777216"
  using nearest32_eval [of 134 257] nearest32_eval [of 118 "1 / 255"]
    nearest32_eval [of 118 "8421505 / 2147483648"]
    nearest32_eval [of 118 "16843009 / 4294967296"]
    nearest32_eval [of 118 "65793 / 16777216"]
  by (simp_all add: roundEven_def)

lemma example_rounding255:
  "nearest32 16711425 = 16711425"
  "nearest32 (- (33422849 / 2)) = - 16711424"
  using nearest32_eval [of 149 16711425] nearest32_eval [of 149 "- (33422849 / 2)"]
  by (simp_all add: roundEven_def)

text \<open>
  The rounding error is at most half a spacing: \<open>2^-24\<close> of any bound \<open>B\<close> on the
  magnitude, as long as \<open>B\<close> is not below the smallest normal value \<open>2^-126\<close>.
\<close>

lemma nearest32_error:
  assumes "\<bar>x\<bar> \<le> B" "1 / 2^126 \<le> B"
  shows "\<bar>nearest32 x - x\<bar> \<le> B / 2^24"
proof -
  define q where "q = ulp32 x"
  have q: "0 < q" unfolding q_def by (rule ulp32_pos)
  have "nearest32 x - x = q * (of_int (roundEven (x / q)) - x / q)"
    using q by (simp add: nearest32_def q_def field_simps)
  hence "\<bar>nearest32 x - x\<bar> = q * \<bar>of_int (roundEven (x / q)) - x / q\<bar>"
    using q by (simp add: abs_mult)
  also have "\<dots> \<le> q * (1/2)"
    using q roundEven_error [of "x / q"] by (intro mult_left_mono) simp_all
  finally have h: "\<bar>nearest32 x - x\<bar> \<le> q / 2" by simp
  from ulp32_low [of x] have "q / 2 \<le> B / 2^24"
  proof
    assume "ulp32 x = 1 / 2^149"
    hence "q / 2 = (1 / 2^126) / 2^24" by (simp add: q_def)
    also have "\<dots> \<le> B / 2^24" using assms(2) by (intro divide_right_mono) simp_all
    finally show ?thesis .
  next
    assume "2^23 * ulp32 x \<le> \<bar>x\<bar>"
    hence "2^23 * q \<le> B" using assms(1) by (simp add: q_def)
    thus ?thesis by simp
  qed
  with h show ?thesis by linarith
qed

lemma nearest32_within:
  assumes "\<bar>x\<bar> \<le> B" "1 / 2^126 \<le> B"
  shows "\<bar>nearest32 x - x\<bar> \<le> B / 16777216"
  using nearest32_error [OF assms] by simp

lemma nearest32_le:
  assumes "\<bar>x\<bar> \<le> B" "1 / 2^126 \<le> B"
  shows "\<bar>nearest32 x\<bar> \<le> 2 * B"
proof -
  have "\<bar>nearest32 x - x\<bar> \<le> B / 2^24" by (rule nearest32_error [OF assms])
  moreover have "B / 2^24 \<le> B" using assms(2) by simp
  ultimately show ?thesis using assms(1) by linarith
qed

text \<open>No overflow below \<open>2^127\<close>.\<close>

lemma round32_Num:
  assumes "\<bar>x\<bar> \<le> B" "1 / 2^126 \<le> B" "B \<le> 2^127"
  shows "round32 x = Num (nearest32 x)"
proof -
  have "\<bar>nearest32 x - x\<bar> \<le> B / 2^24" by (rule nearest32_error [OF assms(1,2)])
  hence "\<bar>nearest32 x\<bar> \<le> B + B / 2^24" using assms(1) by linarith
  also have "\<dots> < 2^128" using assms(3) by simp
  finally show ?thesis by (simp add: round32_def Let_def abs_if split: if_splits)
qed

lemma product_Num:
  assumes "\<bar>x\<bar> \<le> 2^50" "\<bar>y\<bar> \<le> 2^68"
  shows "round32 (x * y) = Num (nearest32 (x * y))" "\<bar>nearest32 (x * y)\<bar> \<le> 2^119"
proof -
  have "\<bar>x * y\<bar> = \<bar>x\<bar> * \<bar>y\<bar>" by (rule abs_mult)
  also have "\<dots> \<le> 2^50 * 2^68" using assms by (intro mult_mono) simp_all
  finally have b: "\<bar>x * y\<bar> \<le> 2^118" by simp
  have l: "(1::real) / 2^126 \<le> 2^118" by simp
  show "round32 (x * y) = Num (nearest32 (x * y))" by (rule round32_Num [OF b l]) simp
  show "\<bar>nearest32 (x * y)\<bar> \<le> 2^119" using nearest32_le [OF b l] by simp
qed

lemma sum_Num:
  assumes "\<bar>x\<bar> \<le> 2^121" "\<bar>y\<bar> \<le> 2^121"
  shows "round32 (x + y) = Num (nearest32 (x + y))" "\<bar>nearest32 (x + y)\<bar> \<le> 2^123"
proof -
  have b: "\<bar>x + y\<bar> \<le> 2^122" using assms by simp
  have l: "(1::real) / 2^126 \<le> 2^122" by simp
  show "round32 (x + y) = Num (nearest32 (x + y))" by (rule round32_Num [OF b l]) simp
  show "\<bar>nearest32 (x + y)\<bar> \<le> 2^123" using nearest32_le [OF b l] by simp
qed

subsection \<open>The scale factors\<close>

lemma range_width:
  assumes "1 / 2^50 \<le> hi - lo" "hi - lo \<le> 2^51"
  shows "round32 (hi - lo) = Num (nearest32 (hi - lo))"
    and "\<bar>nearest32 (hi - lo) - (hi - lo)\<bar> \<le> (hi - lo) / 2^24"
proof -
  have a: "\<bar>hi - lo\<bar> \<le> hi - lo" using assms by simp
  have b: "1 / 2^126 \<le> hi - lo" using assms(1) by simp
  show "\<bar>nearest32 (hi - lo) - (hi - lo)\<bar> \<le> (hi - lo) / 2^24"
    by (rule nearest32_error [OF a b])
  show "round32 (hi - lo) = Num (nearest32 (hi - lo))"
    by (rule round32_Num [OF a b]) (use assms in simp)
qed

text \<open>The server's \<^verbatim>\<open>eScale\<close> is \<open>65535 / (hi - lo)\<close> up to a relative error of \<open>3 / 2^24\<close>.\<close>

lemma server_scale:
  assumes "1 / 2^50 \<le> hi - lo" "hi - lo \<le> 2^51"
  defines "d1 \<equiv> nearest32 (hi - lo)"
  defines "S \<equiv> nearest32 (65535 / d1)"
  shows "0 < d1" "d1 \<noteq> 0" "round32 (65535 / d1) = Num S" "0 < S"
    and "\<bar>S * (hi - lo) - 65535\<bar> \<le> 65535 * 3 / 2^24" and "S \<le> 2^68"
proof -
  define d where "d = hi - lo"
  have d: "1 / 2^50 \<le> d" "d \<le> 2^51" using assms(1,2) by (simp_all add: d_def)
  have e1: "\<bar>d1 - d\<bar> \<le> d / 2^24"
    unfolding d1_def d_def by (rule range_width(2) [OF assms(1,2)])
  have lo1: "d / 2 \<le> d1" and hi1: "d1 \<le> 2 * d"
    using e1 d unfolding abs_diff_le_iff by simp_all
  show p1: "0 < d1" using lo1 d by simp
  thus "d1 \<noteq> 0" by simp
  define x where "x = 65535 / d1"
  have xp: "0 < x" using p1 by (simp add: x_def)
  have "65535 / 2^52 \<le> x"
    unfolding x_def using p1 hi1 d by (intro divide_left_mono) simp_all
  hence xl: "1 / 2^126 \<le> x" by simp
  have "x \<le> 65535 / (1 / 2^51)"
    unfolding x_def using p1 lo1 d by (intro divide_left_mono) simp_all
  hence xu: "x \<le> 2^67" by simp
  have ax: "\<bar>x\<bar> \<le> x" using xp by simp
  have e2: "\<bar>S - x\<bar> \<le> x / 2^24"
    unfolding S_def x_def [symmetric] by (rule nearest32_error [OF ax xl])
  show "round32 (65535 / d1) = Num S"
    unfolding S_def x_def [symmetric] by (rule round32_Num [OF ax xl]) (use xu in simp)
  have "x / 2 \<le> S" using e2 xp unfolding abs_diff_le_iff by simp
  thus Sp: "0 < S" using xp by simp
  show "S \<le> 2^68" using e2 xu xp unfolding abs_diff_le_iff by simp
  define Sd1 where "Sd1 = S * d1"
  define Sd where "Sd = S * d"
  have xd: "x * d1 = 65535" using p1 by (simp add: x_def)
  have "Sd1 - 65535 = (S - x) * d1" using xd by (simp add: Sd1_def left_diff_distrib)
  hence "\<bar>Sd1 - 65535\<bar> = \<bar>S - x\<bar> * d1" using p1 by (simp add: abs_mult)
  also have "\<dots> \<le> x / 2^24 * d1" using e2 p1 by (intro mult_right_mono) simp_all
  also have "\<dots> = 65535 / 2^24" using xd by simp
  finally have b1: "\<bar>Sd1 - 65535\<bar> \<le> 65535 / 2^24" .
  have "Sd1 - Sd = S * (d1 - d)" by (simp add: Sd1_def Sd_def right_diff_distrib)
  hence "\<bar>Sd1 - Sd\<bar> = S * \<bar>d1 - d\<bar>" using Sp by (simp add: abs_mult)
  also have "\<dots> \<le> S * (d / 2^24)" using e1 Sp by (intro mult_left_mono) simp_all
  also have "\<dots> = Sd / 2^24" by (simp add: Sd_def)
  finally have b2: "\<bar>Sd1 - Sd\<bar> \<le> Sd / 2^24" .
  have "\<bar>Sd - 65535\<bar> \<le> 65535 * 3 / 2^24" using b1 b2 unfolding abs_diff_le_iff by simp
  thus "\<bar>S * (hi - lo) - 65535\<bar> \<le> 65535 * 3 / 2^24" by (simp add: Sd_def d_def)
qed

text \<open>The client's \<^verbatim>\<open>eScale\<close> is \<open>(hi - lo) / 65535\<close> up to a relative error of \<open>3 / 2^24\<close>.\<close>

lemma client_scale:
  assumes "1 / 2^50 \<le> hi - lo" "hi - lo \<le> 2^51"
  defines "d1 \<equiv> nearest32 (hi - lo)"
  defines "S \<equiv> nearest32 (d1 / 65535)"
  shows "round32 (d1 / 65535) = Num S" "0 < S"
    and "\<bar>S * 65535 - (hi - lo)\<bar> \<le> (hi - lo) * 3 / 2^24"
proof -
  define d where "d = hi - lo"
  have d: "1 / 2^50 \<le> d" "d \<le> 2^51" using assms(1,2) by (simp_all add: d_def)
  have e1: "\<bar>d1 - d\<bar> \<le> d / 2^24"
    unfolding d1_def d_def by (rule range_width(2) [OF assms(1,2)])
  have lo1: "d / 2 \<le> d1" and hi1: "d1 \<le> 2 * d"
    using e1 d unfolding abs_diff_le_iff by simp_all
  have p1: "0 < d1" using lo1 d by simp
  define x where "x = d1 / 65535"
  have xp: "0 < x" using p1 by (simp add: x_def)
  have xl: "1 / 2^126 \<le> x" using lo1 d by (simp add: x_def)
  have xu: "x \<le> 2^127" using hi1 d by (simp add: x_def)
  have ax: "\<bar>x\<bar> \<le> x" using xp by simp
  have e2: "\<bar>S - x\<bar> \<le> x / 2^24"
    unfolding S_def x_def [symmetric] by (rule nearest32_error [OF ax xl])
  show "round32 (d1 / 65535) = Num S"
    unfolding S_def x_def [symmetric] by (rule round32_Num [OF ax xl xu])
  have "x / 2 \<le> S" using e2 xp unfolding abs_diff_le_iff by simp
  thus "0 < S" using xp by simp
  have "\<bar>S * 65535 - d1\<bar> \<le> d1 / 2^24"
    using e2 unfolding abs_diff_le_iff x_def by simp
  hence "\<bar>S * 65535 - d\<bar> \<le> d * 3 / 2^24"
    using e1 d unfolding abs_diff_le_iff by simp
  thus "\<bar>S * 65535 - (hi - lo)\<bar> \<le> (hi - lo) * 3 / 2^24" by (simp add: d_def)
qed

subsection \<open>No operation of the two directions overflows on a moderate range\<close>

lemma unat_UInt16:
  assumes "0 < x" "x < 65535"
  shows "unat (UInt16 (Num x)) = nat \<lfloor>x\<rfloor>"
proof -
  have f0: "0 \<le> \<lfloor>x\<rfloor>" using assms by simp
  have f1: "\<lfloor>x\<rfloor> < 65536" using assms by (simp add: floor_less_iff)
  have "uint (word_of_int \<lfloor>x\<rfloor> :: 16 word) = \<lfloor>x\<rfloor>"
    using f0 f1 by (simp add: uint_word_of_int)
  hence "unat (word_of_int \<lfloor>x\<rfloor> :: 16 word) = nat \<lfloor>x\<rfloor>"
    by (simp add: unat_eq_nat_uint)
  thus ?thesis using assms by simp
qed

lemma code_of_raw:
  "unat (if le32 (Num se) (Num 0) then 0 else if le32 (Num 65535) (Num se) then 65535
         else UInt16 (Num se)) =
   (if se \<le> 0 then 0 else if se \<ge> 65535 then 65535
    else nat (if 0 \<le> se then \<lfloor>se\<rfloor> else \<lceil>se\<rceil>))"
proof (cases "se \<le> 0 \<or> se \<ge> 65535")
  case True
  then show ?thesis by auto
next
  case False
  hence r: "0 < se" "se < 65535" by simp_all
  show ?thesis using r unat_UInt16 [OF r] by simp
qed

lemma code_le: "real (unat (k :: 16 word)) \<le> 65535"
proof -
  have "unat k \<le> 65535" using unsigned_less [of k, where 'a = nat] by simp
  hence "real (unat k) \<le> real (65535::nat)" by (simp only: of_nat_le_iff)
  thus ?thesis by (simp only: of_nat_numeral)
qed

lemma quantize_spec32:
  assumes "\<bar>lo\<bar> \<le> 2^50" "\<bar>hi\<bar> \<le> 2^50" "1 / 2^50 \<le> hi - lo" "\<bar>e\<bar> \<le> 2^50"
  shows "unat (quantize (lo, hi) e) = spec_encode32 lo hi e"
proof -
  have w: "hi - lo \<le> 2^51" using assms(1,2) by simp
  define S where "S = nearest32 (65535 / nearest32 (hi - lo))"
  define P where "P = nearest32 (lo * S)"
  define M where "M = nearest32 (e * S)"
  define Q where "Q = nearest32 (1/2 - P)"
  note sc = server_scale [OF assms(3) w, folded S_def]
  have s: "\<bar>S\<bar> \<le> 2^68" using sc(4,6) by simp
  have width: "sub32 (Num hi) (Num lo) = Num (nearest32 (hi - lo))"
    using range_width(1) [OF assms(3) w] by (simp add: sub32_def)
  have scale: "div32 (Num 65535) (Num (nearest32 (hi - lo))) = Num S"
    using sc(2,3) by simp
  have p: "mul32 (Num lo) (Num S) = Num P" "\<bar>P\<bar> \<le> 2^119"
    using product_Num [OF assms(1) s] by (simp_all add: P_def)
  have m: "mul32 (Num e) (Num S) = Num M" "\<bar>M\<bar> \<le> 2^119"
    using product_Num [OF assms(4) s] by (simp_all add: M_def)
  have h: "\<bar>1/2 :: real\<bar> \<le> 2^121" by simp
  have p': "\<bar>- P\<bar> \<le> 2^121" using p(2) by simp
  have o: "sub32 (Num (1/2)) (Num P) = Num Q"
    using sum_Num(1) [OF h p'] by (simp add: sub32_def Q_def)
  have o': "\<bar>Q\<bar> \<le> 2^121"
  proof -
    have b: "\<bar>1/2 - P\<bar> \<le> 2^120" using p(2) by simp
    have l: "(1::real) / 2^126 \<le> 2^120" by simp
    show ?thesis using nearest32_le [OF b l] by (simp add: Q_def)
  qed
  have m': "\<bar>M\<bar> \<le> 2^121" using m(2) by simp
  have raw: "add32 (Num M) (Num Q) = Num (nearest32 (M + Q))"
    using sum_Num(1) [OF m' o'] by simp
  show ?thesis
    unfolding quantize_def spec_encode32_def Let_def fst_conv snd_conv
    by (simp only: width scale p(1) m(1) o raw code_of_raw
        S_def [symmetric] P_def [symmetric] M_def [symmetric] Q_def [symmetric])
qed

lemma dequantize_spec32:
  assumes "\<bar>lo\<bar> \<le> 2^50" "\<bar>hi\<bar> \<le> 2^50" "1 / 2^50 \<le> hi - lo"
  shows "dequantize (lo, hi) k = spec_decode32 lo hi (unat k)"
proof -
  have w: "hi - lo \<le> 2^51" using assms(1,2) by simp
  define d where "d = hi - lo"
  define S where "S = nearest32 (nearest32 (hi - lo) / 65535)"
  define T where "T = nearest32 (real (unat k) * S)"
  note sc = client_scale [OF assms(3) w, folded S_def]
  have width: "sub32 (Num hi) (Num lo) = Num (nearest32 (hi - lo))"
    using range_width(1) [OF assms(3) w] by (simp add: sub32_def)
  have scale: "div32 (Num (nearest32 (hi - lo))) (Num 65535) = Num S"
    using sc(1) by simp
  have "S * 65535 \<le> 2^52"
    using sc(3) w unfolding abs_diff_le_iff d_def [symmetric] by simp
  hence s: "\<bar>S\<bar> \<le> 2^68" using sc(2) by simp
  have "\<bar>real (unat k)\<bar> = real (unat k)" by (rule abs_of_nat)
  hence k: "\<bar>real (unat k)\<bar> \<le> 2^50" using code_le [of k] by (simp only:) simp
  have t: "mul32 (Num (real (unat k))) (Num S) = Num T" "\<bar>T\<bar> \<le> 2^119"
    using product_Num [OF k s] by (simp_all add: T_def)
  have t': "\<bar>T\<bar> \<le> 2^121" using t(2) by simp
  have l': "\<bar>lo\<bar> \<le> 2^121" using assms(1) by simp
  have out: "add32 (Num T) (Num lo) = Num (nearest32 (T + lo))"
    using sum_Num(1) [OF t' l'] by simp
  show ?thesis
    unfolding dequantize_def spec_decode32_def Let_def fst_conv snd_conv
    by (simp only: width scale t(1) out stored.simps S_def [symmetric] T_def [symmetric])
qed

subsection \<open>The rounding errors of the two directions\<close>

text \<open>
  The client's value for a code differs from the one of the exact decoding formula by the
  rounding errors of its three operations after the difference.
\<close>

lemma decode_error:
  assumes "\<bar>lo\<bar> \<le> 2^50" "\<bar>hi\<bar> \<le> 2^50" "1 / 2^50 \<le> hi - lo" "k \<le> 65535"
  shows "\<bar>spec_decode32 lo hi k - spec_decode lo hi k\<bar>
           \<le> (max \<bar>lo\<bar> \<bar>hi\<bar> + 5 * (hi - lo)) / 2^24"
proof -
  define d where "d = hi - lo"
  define A where "A = max \<bar>lo\<bar> \<bar>hi\<bar>"
  define S where "S = nearest32 (nearest32 (hi - lo) / 65535)"
  define S65 where "S65 = S * 65535"
  define kS where "kS = real k * S"
  define kc where "kc = real k * d / 65535"
  define T where "T = nearest32 kS"
  define out where "out = nearest32 (T + lo)"
  have w: "hi - lo \<le> 2^51" using assms(1,2) by simp
  have d: "1 / 2^126 \<le> d / 2" "0 < d" using assms(3) by (simp_all add: d_def)
  have A: "d \<le> 2 * A" "\<bar>lo\<bar> \<le> A" "\<bar>hi\<bar> \<le> A" by (simp_all add: d_def A_def)
  note sc = client_scale [OF assms(3) w, folded S_def, folded d_def S65_def]
  have s65: "\<bar>S65 - d\<bar> \<le> d * 3 / 16777216" using sc(3) by simp
  have k: "real k \<le> 65535" using assms(4) by simp
  have kS: "0 \<le> kS" "kS \<le> S65"
    using sc(2) k by (simp_all add: kS_def S65_def mult_right_mono)
  have kc: "0 \<le> kc" "kc \<le> d"
    using d(2) k by (simp_all add: kc_def field_simps)
  have b1: "\<bar>kS\<bar> \<le> S65" using kS by simp
  have l1: "1 / 2^126 \<le> S65" using s65 d by linarith
  have eT: "\<bar>T - kS\<bar> \<le> S65 / 16777216"
    unfolding T_def by (rule nearest32_within [OF b1 l1])
  define f where "f = real k / 65535"
  have f: "0 \<le> f" "f \<le> 1" using k by (simp_all add: f_def)
  have "kS - kc = f * (S65 - d)"
    by (simp add: kS_def kc_def S65_def f_def field_simps)
  hence "\<bar>kS - kc\<bar> = \<bar>f * (S65 - d)\<bar>" by (simp only:)
  also have "\<dots> = f * \<bar>S65 - d\<bar>" using f(1) by (simp add: abs_mult)
  also have "\<dots> \<le> 1 * \<bar>S65 - d\<bar>" using f(2) by (intro mult_right_mono) simp_all
  finally have ek: "\<bar>kS - kc\<bar> \<le> d * 3 / 16777216" using s65 by simp
  have eTk: "\<bar>T - kc\<bar> \<le> d * 9 / 33554432"
    using eT ek s65 d(2) by linarith
  have "lo \<le> kc + lo" "kc + lo \<le> hi" using kc by (simp_all add: d_def)
  hence mid: "\<bar>kc + lo\<bar> \<le> A" using A(2,3) by linarith
  have b2: "\<bar>T + lo\<bar> \<le> A + d / 2" using mid eTk d(2) by linarith
  have l2: "1 / 2^126 \<le> A + d / 2" using A(1) d by linarith
  have eo: "\<bar>out - (T + lo)\<bar> \<le> (A + d / 2) / 16777216"
    unfolding out_def by (rule nearest32_within [OF b2 l2])
  have "\<bar>out - (kc + lo)\<bar> \<le> (A + 5 * d) / 16777216"
    using eo eTk d(2) by argo
  thus ?thesis
    by (simp add: spec_decode32_def spec_decode_def out_def T_def kS_def S_def kc_def A_def d_def)
qed

text \<open>
  The code the server sends for a sample of the range stands, in the exact decoding
  formula, for an elevation at most half a step and the rounding errors of its six
  operations away from the sample.
\<close>

lemma encode_error:
  assumes "lo \<le> e" "e \<le> hi" "\<bar>lo\<bar> \<le> 2^50" "\<bar>hi\<bar> \<le> 2^50" "1 / 2^50 \<le> hi - lo"
  shows "spec_encode32 lo hi e \<le> 65535"
    and "\<bar>spec_decode lo hi (spec_encode32 lo hi e) - e\<bar>
           \<le> (hi - lo) / 131070 + (18/5 * max \<bar>lo\<bar> \<bar>hi\<bar> + 5 * (hi - lo)) / 2^24"
proof -
  define d where "d = hi - lo"
  define A where "A = max \<bar>lo\<bar> \<bar>hi\<bar>"
  define S where "S = nearest32 (65535 / nearest32 (hi - lo))"
  define Sd where "Sd = S * d"
  define AS where "AS = A * S"
  define P where "P = nearest32 (lo * S)"
  define M where "M = nearest32 (e * S)"
  define Q where "Q = nearest32 (1/2 - P)"
  define se where "se = nearest32 (M + Q)"
  define t where "t = (e - lo) * S"
  define r where "r = (e - lo) * 65535 / d"
  define g where "g = (e - lo) / d"
  define k where "k = spec_encode32 lo hi e"
  have w: "hi - lo \<le> 2^51" using assms(3,4) by simp
  have d: "0 < d" using assms(5) by (simp add: d_def)
  have A: "d \<le> 2 * A" "\<bar>lo\<bar> \<le> A" "\<bar>e\<bar> \<le> A" "0 \<le> A"
    using assms(1,2) by (simp_all add: d_def A_def)
  note sc = server_scale [OF assms(5) w, folded S_def]
  have S: "0 < S" by (rule sc(4))
  have sd: "\<bar>Sd - 65535\<bar> \<le> 196605 / 16777216" using sc(5) by (simp add: Sd_def d_def)
  have "S * d \<le> S * (2 * A)" using A(1) S by (intro mult_left_mono) simp_all
  hence sa: "Sd \<le> 2 * AS" by (simp add: Sd_def AS_def mult_ac)
  have as: "1 \<le> AS" using sd sa by argo
  have l: "1 / 2^126 \<le> AS" using as by simp
  have "\<bar>lo * S\<bar> = \<bar>lo\<bar> * S" using S by (simp add: abs_mult)
  also have "\<dots> \<le> A * S" using A(2) S by (intro mult_right_mono) simp_all
  finally have bP: "\<bar>lo * S\<bar> \<le> AS" by (simp add: AS_def)
  have "\<bar>e * S\<bar> = \<bar>e\<bar> * S" using S by (simp add: abs_mult)
  also have "\<dots> \<le> A * S" using A(3) S by (intro mult_right_mono) simp_all
  finally have bM: "\<bar>e * S\<bar> \<le> AS" by (simp add: AS_def)
  have eP: "\<bar>P - lo * S\<bar> \<le> AS / 16777216"
    unfolding P_def by (rule nearest32_within [OF bP l])
  have eM: "\<bar>M - e * S\<bar> \<le> AS / 16777216"
    unfolding M_def by (rule nearest32_within [OF bM l])
  have bQ: "\<bar>1/2 - P\<bar> \<le> 1/2 + AS + AS / 16777216" using eP bP by argo
  have lQ: "1 / 2^126 \<le> 1/2 + AS + AS / 16777216" using as by simp
  have eQ: "\<bar>Q - (1/2 - P)\<bar> \<le> (1/2 + AS + AS / 16777216) / 16777216"
    unfolding Q_def by (rule nearest32_within [OF bQ lQ])
  have t: "e * S - lo * S = t" by (simp add: t_def left_diff_distrib)
  have "0 \<le> e - lo" "e - lo \<le> d" using assms(1,2) by (simp_all add: d_def)
  hence g: "0 \<le> g" "g \<le> 1" using d by (simp_all add: g_def)
  have tg: "t = g * Sd" "r = g * 65535" using d by (simp_all add: t_def r_def g_def Sd_def)
  have "0 \<le> Sd" using sd by argo
  hence t0: "0 \<le> t" "t \<le> Sd" using g by (simp_all add: tg mult_left_le_one_le)
  have r0: "0 \<le> r" "r \<le> 65535" using g by (simp_all add: tg)
  have "t - r = g * (Sd - 65535)" by (simp add: tg right_diff_distrib)
  hence "\<bar>t - r\<bar> = \<bar>g * (Sd - 65535)\<bar>" by (simp only:)
  also have "\<dots> = g * \<bar>Sd - 65535\<bar>" using g(1) by (simp add: abs_mult)
  also have "\<dots> \<le> 1 * \<bar>Sd - 65535\<bar>" using g(2) by (intro mult_right_mono) simp_all
  finally have tr: "\<bar>t - r\<bar> \<le> 196605 / 16777216" using sd by simp
  have bse: "\<bar>M + Q\<bar> \<le> Sd + 1 + AS / 4194304" using eP eM eQ t t0 as by argo
  have lse: "1 / 2^126 \<le> Sd + 1 + AS / 4194304" using as sd by simp argo
  have ese: "\<bar>se - (M + Q)\<bar> \<le> (Sd + 1 + AS / 4194304) / 16777216"
    unfolding se_def by (rule nearest32_within [OF bse lse])
  have raw: "\<bar>se - (r + 1/2)\<bar> \<le> (7/2 * AS + 262144) / 16777216"
    using eP eM eQ ese t tr sd as by argo
  have k: "k = (if se \<le> 0 then 0 else if se \<ge> 65535 then 65535 else nat \<lfloor>se\<rfloor>)"
    unfolding k_def spec_encode32_def Let_def
    by (simp add: se_def M_def Q_def P_def S_def)
  show "spec_encode32 lo hi e \<le> 65535"
    unfolding k_def [symmetric] k by (simp add: nat_le_iff floor_le_iff)
  have kr: "\<bar>real k - r\<bar> \<le> 1/2 + (7/2 * AS + 262144) / 16777216"
  proof (cases "se \<le> 0 \<or> se \<ge> 65535")
    case True
    then show ?thesis using raw r0 as unfolding k by (auto; argo)
  next
    case False
    hence "real k = of_int \<lfloor>se\<rfloor>" unfolding k by simp
    moreover have "of_int \<lfloor>se\<rfloor> \<le> se" "se < of_int \<lfloor>se\<rfloor> + 1" by linarith+
    ultimately show ?thesis using raw by argo
  qed
  define ASd where "ASd = A * Sd"
  have asd: "AS * d = ASd" by (simp add: AS_def ASd_def Sd_def)
  have "A * Sd \<le> A * 65536" using A(4) sd by (intro mult_left_mono) (simp_all, argo)
  hence asd_le: "ASd \<le> A * 65536" by (simp add: ASd_def)
  have "spec_decode lo hi k - e = (real k - r) * (d / 65535)"
    using d by (simp add: spec_decode_def r_def d_def field_simps)
  hence "\<bar>spec_decode lo hi k - e\<bar> = \<bar>(real k - r) * (d / 65535)\<bar>" by (simp only:)
  also have "\<dots> = \<bar>real k - r\<bar> * (d / 65535)" using d by (simp add: abs_mult)
  also have "\<dots> \<le> (1/2 + (7/2 * AS + 262144) / 16777216) * (d / 65535)"
    using kr d by (intro mult_right_mono) simp_all
  also have "\<dots> = d / 131070 + (7/2 * ASd + 262144 * d) / 16777216 / 65535"
    by (simp add: asd [symmetric] field_simps)
  also have "\<dots> \<le> d / 131070 + (18/5 * A + 5 * d) / 16777216"
    using asd_le d A(4) by argo
  finally show "\<bar>spec_decode lo hi (spec_encode32 lo hi e) - e\<bar>
           \<le> (hi - lo) / 131070 + (18/5 * max \<bar>lo\<bar> \<bar>hi\<bar> + 5 * (hi - lo)) / 2^24"
    by (simp add: k_def d_def A_def)
qed

subsection \<open>The round trip\<close>

lemma example_code300: "quantize (300, 301) (9863145 / 32768) = 65490"
  by (simp add: quantize_def Let_def sub32_def round32_def example_rounding)

lemma example_decoded300: "dequantize (300, 301) 65490 = 4931573 / 16384"
  by (simp add: dequantize_def Let_def sub32_def round32_def example_rounding)

text \<open>
  The claim of C2 fails in binary32 arithmetic. For the range \<open>[300, 301]\<close> and the sample
  \<open>9863145 / 32768 = 300.999298095703125\<close> (a binary32 value) the product of the sample with
  \<^verbatim>\<open>eScale = 65535\<close> is about \<open>19725989.1\<close>, where binary32 values are 2 apart: it rounds to
  \<open>19725990\<close>, and so does the product \<open>300 * 65535 - 1/2\<close> to \<open>19660500\<close>. The server sends
  the code \<open>65490\<close> (the exact formula gives \<open>65489\<close>), the client decodes it to
  \<open>4931573 / 16384 = 300.99932861328125\<close>, and that is \<open>1 / 32768\<close> away from the sample, twice
  the quantization step \<open>1 / 65535\<close>.
\<close>

theorem quantize_dequantize_error_counterexample:
  "(300::real) < 301 \<and> (300::real) \<le> 9863145 / 32768 \<and> (9863145 / 32768 :: real) \<le> 301 \<and>
   quantize (300, 301) (9863145 / 32768) = 65490 \<and>
   dequantize (300, 301) 65490 = 4931573 / 16384 \<and>
   \<not> \<bar>dequantize (300, 301) (quantize (300, 301) (9863145 / 32768)) - 9863145 / 32768\<bar>
       \<le> (301 - 300) / 65535"
  by (simp add: example_code300 example_decoded300)

text \<open>
  C2, as amended. For a range \<open>[lo, hi]\<close> of moderate size (both bounds at most \<open>2^50\<close> in
  magnitude, \<open>hi - lo\<close> at least \<open>2^-50\<close>) and every elevation \<open>e\<close> with \<open>lo \<le> e \<le> hi\<close>,
  decoding with the client's dequantization the code that the server's quantization
  produces for \<open>e\<close> gives a value at most one quantization step \<open>(hi - lo) / 65535\<close> plus
  \<open>5 / 2^24\<close> of the larger bound magnitude away from \<open>e\<close>: the second term is what the
  roundings of the binary32 operations can add. When the larger bound magnitude is at
  most 25 times the width \<open>hi - lo\<close> of the range, the value is at most one quantization
  step away from \<open>e\<close>, as the claim says.
\<close>

theorem quantize_dequantize_error:
  assumes "lo \<le> e" "e \<le> hi" "\<bar>lo\<bar> \<le> 2^50" "\<bar>hi\<bar> \<le> 2^50" "1 / 2^50 \<le> hi - lo"
  shows "\<bar>dequantize (lo, hi) (quantize (lo, hi) e) - e\<bar>
           \<le> (hi - lo) / 65535 + 5 * max \<bar>lo\<bar> \<bar>hi\<bar> / 2^24 \<and>
         (max \<bar>lo\<bar> \<bar>hi\<bar> \<le> 25 * (hi - lo) \<longrightarrow>
            \<bar>dequantize (lo, hi) (quantize (lo, hi) e) - e\<bar> \<le> (hi - lo) / 65535)"
proof -
  define k where "k = quantize (lo, hi) e"
  define A where "A = max \<bar>lo\<bar> \<bar>hi\<bar>"
  define d where "d = hi - lo"
  have e: "\<bar>e\<bar> \<le> 2^50" using assms(1-4) by simp
  have q: "unat k = spec_encode32 lo hi e"
    unfolding k_def by (rule quantize_spec32 [OF assms(3,4,5) e])
  have dq: "dequantize (lo, hi) k = spec_decode32 lo hi (spec_encode32 lo hi e)"
    using dequantize_spec32 [OF assms(3,4,5), of k] by (simp only: q)
  note enc = encode_error [OF assms, folded A_def d_def]
  note dec = decode_error [OF assms(3,4,5) enc(1), folded A_def d_def]
  have d: "0 < d" using assms(5) by (simp add: d_def)
  have A: "0 \<le> A" by (simp add: A_def)
  have e1: "\<bar>spec_decode lo hi (spec_encode32 lo hi e) - e\<bar>
      \<le> d / 131070 + (18/5 * A + 5 * d) / 16777216" using enc(2) by simp
  have e2: "\<bar>spec_decode32 lo hi (spec_encode32 lo hi e) - spec_decode lo hi (spec_encode32 lo hi e)\<bar>
      \<le> (A + 5 * d) / 16777216" using dec by simp
  have general: "\<bar>spec_decode32 lo hi (spec_encode32 lo hi e) - e\<bar>
      \<le> d / 65535 + 5 * A / 16777216"
    using e1 e2 d A by argo
  have narrow: "\<bar>spec_decode32 lo hi (spec_encode32 lo hi e) - e\<bar> \<le> d / 65535"
    if "A \<le> 25 * d"
    using e1 e2 d A that by argo
  show ?thesis
    using general narrow by (simp add: k_def [symmetric] dq A_def d_def)
qed

theorem quantize_dequantize_error_witness:
  "(300::real) \<le> 9863145 / 32768 \<and> (9863145 / 32768 :: real) \<le> 301 \<and>
   \<bar>300 :: real\<bar> \<le> 2^50 \<and> \<bar>301 :: real\<bar> \<le> 2^50 \<and> (1::real) / 2^50 \<le> 301 - 300 \<and>
   \<bar>dequantize (300, 301) (quantize (300, 301) (9863145 / 32768)) - 9863145 / 32768\<bar>
     \<le> (301 - 300) / 65535 + 5 * max \<bar>300\<bar> \<bar>301\<bar> / 2^24 \<and>
   (0::real) \<le> 1/4 \<and> (1/4 :: real) \<le> 1 \<and>
   \<bar>0 :: real\<bar> \<le> 2^50 \<and> \<bar>1 :: real\<bar> \<le> 2^50 \<and> (1::real) / 2^50 \<le> 1 - 0 \<and>
   max \<bar>0 :: real\<bar> \<bar>1\<bar> \<le> 25 * (1 - 0) \<and>
   \<bar>dequantize (0, 1) (quantize (0, 1) (1/4)) - 1/4\<bar> \<le> (1 - 0) / 65535"
  using quantize_dequantize_error [of 300 "9863145 / 32768" 301]
    quantize_dequantize_error [of 0 "1/4" 1]
  by simp

section \<open>Lemmas on intersectLine\<close>

lemma clipLower_inside: "b \<le> g \<Longrightarrow> clipLower b g g gd l = Some l"
  by (simp add: clipLower_def)

lemma clipUpper_inside: "g \<le> b \<Longrightarrow> clipUpper b g g gd l = Some l"
  by (simp add: clipUpper_def)

lemma leaveCell_same: "coord gp0 i = coord gp1 i \<Longrightarrow> leaveCell gp0 gp1 gd cp i st = st"
  by (simp add: leaveCell_def Let_def)

lemma cellEquation_flat:
  "cellEquation (h, h, h, h) cp gp0 gd = (0, - coord gd 2, h - coord gp0 2)"
  by (simp add: cellEquation_def Let_def algebra_simps)

lemma clamp_range: "lo \<le> hi \<Longrightarrow> lo \<le> clamp v lo hi \<and> clamp v lo hi \<le> hi"
  by (simp add: clamp_def)

lemma cell_index_bound:
  assumes "0 \<le> cx" "cx \<le> W - 3" "0 \<le> cy" "cy \<le> H - 3" "3 \<le> (W::int)"
  shows "0 \<le> cy * (W - 1) + cx" "cy * (W - 1) + cx + W < (W - 1) * (H - 1)"
proof -
  show "0 \<le> cy * (W - 1) + cx" using assms by simp
  have "cy * (W - 1) \<le> (H - 3) * (W - 1)"
    using assms by (intro mult_right_mono) simp_all
  also have "\<dots> = (W - 1) * (H - 1) - 2 * (W - 1)" by (simp add: algebra_simps)
  finally show "cy * (W - 1) + cx + W < (W - 1) * (H - 1)" using assms by simp
qed

lemma peek_replicate: "0 \<le> i \<Longrightarrow> i < int n \<Longrightarrow> peek (replicate n h) i = Some h"
  by (simp add: peek_def)

lemma cellCorners_flat:
  assumes "0 \<le> cx" "cx \<le> W - 3" "0 \<le> cy" "cy \<le> H - 3" "3 \<le> (W::int)"
  shows "cellCorners (replicate (nat ((W - 1) * (H - 1))) h) (W, H) (cx, cy) = Some (h, h, h, h)"
proof -
  note b = cell_index_bound [OF assms]
  have "0 < (W - 1) * (H - 1)" using b assms by linarith
  hence n: "int (nat ((W - 1) * (H - 1))) = (W - 1) * (H - 1)" by simp
  have "peek (replicate (nat ((W - 1) * (H - 1))) h) (cy * (W - 1) + cx) = Some h"
    by (rule peek_replicate) (use b assms n in simp_all)
  moreover have "peek (replicate (nat ((W - 1) * (H - 1))) h) (cy * (W - 1) + cx + 1) = Some h"
    by (rule peek_replicate) (use b assms n in simp_all)
  moreover have "peek (replicate (nat ((W - 1) * (H - 1))) h) (cy * (W - 1) + cx + (W - 1)) = Some h"
    by (rule peek_replicate) (use b assms n in simp_all)
  moreover have "peek (replicate (nat ((W - 1) * (H - 1))) h) (cy * (W - 1) + cx + W) = Some h"
    by (rule peek_replicate) (use b assms n in simp_all)
  ultimately show ?thesis by (simp add: cellCorners_def Let_def)
qed

text \<open>
  C8. On a grid whose bathymetry samples all equal \<open>h\<close>, a vertical segment from
  elevation \<open>h + 1\<close> to elevation \<open>h - 1\<close> whose foot point lies inside the valid cell range
  (grid coordinates between 0 and \<open>gridSize - 2\<close> on both axes, for a grid of at least
  \<open>3 \<times> 3\<close> with positive cell sizes) makes \<^verbatim>\<open>intersectLine\<close> return the parameter 1/2: the
  equation of the cell is linear (\<open>a = 0\<close>, \<open>b = 2\<close>, \<open>c = -1\<close>) and its root is mid-segment.
\<close>

theorem intersectLine_flat_vertical:
  assumes gs: "sc_gridSize s = (W, H)" "3 \<le> W" "3 \<le> H"
    and cs: "sc_cellSize s = (cw, ch)" "0 < cw" "0 < ch"
    and flat: "bathymetry (getLockedValue (grids s)) = replicate (nat ((W - 1) * (H - 1))) h"
    and x: "0 \<le> x0 / cw - 1/2" "x0 / cw - 1/2 \<le> of_int (W - 2)"
    and y: "0 \<le> y0 / ch - 1/2" "y0 / ch - 1/2 \<le> of_int (H - 2)"
  shows "intersectLine s (x0, y0, h + 1) (x0, y0, h - 1) = Some (Returns (1/2))"
proof -
  define gx where "gx = x0 / cw - 1/2"
  define gy where "gy = y0 / ch - 1/2"
  define gp0 where "gp0 = (gx, gy, h + 1)"
  define gp1 where "gp1 = (gx, gy, h - 1)"
  define gd :: Point where "gd = (0, 0, - 2)"
  define cx where "cx = clamp \<lfloor>gx\<rfloor> 0 (W - 3)"
  define cy where "cy = clamp \<lfloor>gy\<rfloor> 0 (H - 3)"
  have g0: "gridPoint (sc_cellSize s) (x0, y0, h + 1) = gp0"
    and g1: "gridPoint (sc_cellSize s) (x0, y0, h - 1) = gp1"
    by (simp_all add: gridPoint_def coord_def cs gp0_def gp1_def gx_def gy_def)
  have d: "(coord gp1 0 - coord gp0 0, coord gp1 1 - coord gp0 1, coord gp1 2 - coord gp0 2) = gd"
    by (simp add: coord_def gp0_def gp1_def gd_def)
  have c0: "coord gp0 0 = gx" "coord gp1 0 = gx" "coord gp0 1 = gy" "coord gp1 1 = gy"
    "coord gp0 (Suc 0) = gy" "coord gp1 (Suc 0) = gy"
    "coord gp0 2 = h + 1" "coord gd 2 = - 2"
    by (simp_all add: coord_def gp0_def gp1_def gd_def)
  have ax: "axis (W, H) 0 = W" "axis (W, H) 1 = H" "axis (W, H) (Suc 0) = H"
    by (simp_all add: axis_def)
  have clip: "clipSegment (W, H) gp0 gp1 gd = Some (0, 1)"
    using x y unfolding gx_def [symmetric] gy_def [symmetric]
    by (simp add: clipSegment_def clipAxis_def ax c0 clipLower_inside clipUpper_inside)
  have gp: "affineCombination gp0 gp1 0 = (gx, gy, h + 1)"
    by (simp add: affineCombination_def c0)
  have cr: "0 \<le> cx" "cx \<le> W - 3" "0 \<le> cy" "cy \<le> H - 3"
    using gs clamp_range [of 0 "W - 3" "\<lfloor>gx\<rfloor>"] clamp_range [of 0 "H - 3" "\<lfloor>gy\<rfloor>"]
    by (simp_all add: cx_def cy_def)
  have leave: "leaveCell gp0 gp1 gd (cx, cy) (Suc 0) (leaveCell gp0 gp1 gd (cx, cy) 0 (1, - 1)) = (1, - 1)"
    by (simp add: leaveCell_same c0)
  have corners: "cellCorners (replicate (nat ((W - 1) * (H - 1))) h) (W, H) (cx, cy) = Some (h, h, h, h)"
    by (rule cellCorners_flat [OF cr gs(2)])
  have eqn: "cellEquation (h, h, h, h) (cx, cy) gp0 gd = (0, 2, - 1)"
    by (simp add: cellEquation_flat c0)
  have solve: "validIntersection (solveCell 0 2 (- 1) 0 1) 0 1 = Some (1/2)"
    by (simp add: solveCell_def fdiv_def validIntersection_def)
  have walk: "cellWalk (replicate (nat ((W - 1) * (H - 1))) h) (W, H) gp0 gp1 gd 1 (cx, cy) 0
      = Some (Returns (1/2))"
    by (subst cellWalk.simps) (simp add: leave corners eqn solve)
  show ?thesis
    unfolding intersectLine_def Let_def g0 g1 d gs(1) clip
    by (simp add: gp coord_def flat walk [unfolded cx_def cy_def])
qed


lemma quadratic_candidate_not_Infinite:
  assumes "a \<noteq> 0" "b * b - 4 * a * c \<ge> 0"
  shows "fdiv (- b - sqrt (b * b - 4 * a * c)) (2 * a) \<noteq> Infinite"
    and "b < 0 \<Longrightarrow> fdiv (2 * c) (- b + sqrt (b * b - 4 * a * c)) \<noteq> Infinite"
    and "b \<ge> 0 \<Longrightarrow> fdiv (2 * c) (- b - sqrt (b * b - 4 * a * c)) \<noteq> Infinite"
    and "fdiv (- b + sqrt (b * b - 4 * a * c)) (2 * a) \<noteq> Infinite"
proof -
  let ?det = "sqrt (b * b - 4 * a * c)"
  have d: "0 \<le> ?det" using assms by simp
  show "fdiv (- b - ?det) (2 * a) \<noteq> Infinite" "fdiv (- b + ?det) (2 * a) \<noteq> Infinite"
    using assms by (simp_all add: fdiv_def)
  show "fdiv (2 * c) (- b + ?det) \<noteq> Infinite" if "b < 0"
  proof -
    have "- b + ?det \<noteq> 0" using that d by linarith
    then show ?thesis by (simp only: fdiv_def if_True) simp
  qed
  show "fdiv (2 * c) (- b - ?det) \<noteq> Infinite" if "b \<ge> 0"
  proof (cases "- b - ?det = 0")
    case False
    then show ?thesis by (simp add: fdiv_def)
  next
    case True
    with that d have "b = 0" "?det = 0" by linarith+
    hence "c = 0" using assms by simp
    then show ?thesis by (simp add: fdiv_def)
  qed
qed

lemma flat_bathy: "bathymetry (getLockedValue (grids flatClient)) = replicate 4 0"
  by (simp add: flatClient_def getLockedValue_def numeral_3_eq_3)

theorem intersectLine_flat_vertical_witness:
  "intersectLine flatClient (1, 1, 0 + 1) (1, 1, 0 - 1) = Some (Returns (1/2))"
  using intersectLine_flat_vertical [of flatClient 3 3 1 1 0 1 1]
  by (simp add: flat_bathy) (simp add: flatClient_def)

text \<open>
  A level segment one unit above the flat grid of \<open>flatClient\<close>, from \<open>(3/5, 3/5, 1)\<close> to
  \<open>(7/5, 3/5, 1)\<close>: in grid coordinates from \<open>(1/10, 1/10, 1)\<close> to \<open>(9/10, 1/10, 1)\<close>, inside
  the cell \<open>(0, 0)\<close>.
\<close>

lemma level_gridPoints:
  "gridPoint (1, 1) (3/5, 3/5, 1) = (1/10, 1/10, 1)"
  "gridPoint (1, 1) (7/5, 3/5, 1) = (9/10, 1/10, 1)"
  by (simp_all add: gridPoint_def coord_def)

lemma level_clip:
  "clipSegment (3, 3) (1/10, 1/10, 1) (9/10, 1/10, 1) (4/5, 0, 0) = Some (0, 1)"
  by (simp add: clipSegment_def clipAxis_def clipLower_def clipUpper_def coord_def axis_def)

lemma level_corners: "cellCorners (replicate 4 0) (3, 3) (0, 0) = Some (0, 0, 0, 0)"
  by (simp add: cellCorners_def peek_def)

lemma level_equation:
  "cellEquation (0, 0, 0, 0) (0, 0) (1/10, 1/10, 1) (4/5, 0, 0) = (0, 0, - 1)"
  by (simp add: cellEquation_flat coord_def)

lemma level_leave:
  "leaveCell (1/10, 1/10, 1) (9/10, 1/10, 1) (4/5, 0, 0) (0, 0) (Suc 0)
     (leaveCell (1/10, 1/10, 1) (9/10, 1/10, 1) (4/5, 0, 0) (0, 0) 0 (1, - 1)) = (1, - 1)"
  by (simp add: leaveCell_def coord_def axis_def)

lemma level_walk_end:
  "cellWalk (replicate 4 0) (3, 3) (1/10, 1/10, 1) (9/10, 1/10, 1) (4/5, 0, 0) 1 (0, 0) 1
     = Some (Returns 1)"
  by (subst cellWalk.simps) simp

lemma level_walk:
  "cellWalk (replicate 4 0) (3, 3) (1/10, 1/10, 1) (9/10, 1/10, 1) (4/5, 0, 0) 1 (0, 0) 0
     = Some (Returns 1)"
  by (subst cellWalk.simps)
    (simp add: level_leave level_corners level_equation solveCell_def fdiv_def
      validIntersection_def nextCell_def level_walk_end)

lemma level_intersectLine:
  "intersectLine flatClient (3/5, 3/5, 1) (7/5, 3/5, 1) = Some (Returns 1)"
proof -
  have d: "(coord (9/10, 1/10, 1 :: real) 0 - coord (1/10, 1/10, 1 :: real) 0,
            coord (9/10, 1/10, 1 :: real) 1 - coord (1/10, 1/10, 1 :: real) 1,
            coord (9/10, 1/10, 1 :: real) 2 - coord (1/10, 1/10, 1 :: real) 2) = (4/5, 0, 0)"
    by (simp add: coord_def)
  show ?thesis
    unfolding intersectLine_def Let_def flat_bathy
    by (simp add: flatClient_def level_gridPoints d [simplified] level_clip
        affineCombination_def coord_def clamp_def level_walk)
qed

text \<open>
  The claim of C10 fails on this segment: \<^verbatim>\<open>intersectLine\<close> enters the loop (the clipped
  range is \<open>[0, 1]\<close>), reads the four corners of cell \<open>(0, 0)\<close> and finds the equation
  \<open>a = 0\<close>, \<open>b = 0\<close>, \<open>c = -1\<close>; the linear branch divides \<open>-c\<close> by zero. The quotient is
  an infinity, the cell reports no crossing, and the function returns 1.
\<close>

theorem linear_branch_zero_counterexample:
  "gridPoint (1, 1) (3/5, 3/5, 1) = (1/10, 1/10, 1) \<and>
   gridPoint (1, 1) (7/5, 3/5, 1) = (9/10, 1/10, 1) \<and>
   clipSegment (3, 3) (1/10, 1/10, 1) (9/10, 1/10, 1) (4/5, 0, 0) = Some (0, 1) \<and>
   cellCorners (replicate 4 0) (3, 3) (0, 0) = Some (0, 0, 0, 0) \<and>
   cellEquation (0, 0, 0, 0) (0, 0) (1/10, 1/10, 1) (4/5, 0, 0) = (0, 0, - 1) \<and>
   solveCell 0 0 (- 1) 0 1 = Infinite \<and>
   intersectLine flatClient (3/5, 3/5, 1) (7/5, 3/5, 1) = Some (Returns 1)"
  using level_gridPoints level_clip level_corners level_equation level_intersectLine
  by (simp add: solveCell_def fdiv_def)

text \<open>
  C10, as amended. When a round of the loop reaches the solve with \<open>a = 0\<close>, the
  coefficient \<open>b\<close> may be zero. If \<open>b\<close> is not zero, the candidate is \<open>-c/b\<close>, returned
  when it lies in \<open>[cl0, cl1)\<close>. If \<open>b\<close> is zero, the division is by zero; its result (an
  infinity or a NaN) is not a valid intersection, and the loop goes on with the next cell.
\<close>

theorem linear_branch:
  assumes "cl0 < l1"
    and "leaveCell gp0 gp1 gd cp 1 (leaveCell gp0 gp1 gd cp 0 (l1, - 1)) = (cl1, exit)"
    and "cellCorners bathy gs cp = Some corners"
    and "cellEquation corners cp gp0 gd = (0, b, c)"
  shows "cellWalk bathy gs gp0 gp1 gd l1 cp cl0 =
           (if b \<noteq> 0 \<and> cl0 \<le> - c / b \<and> - c / b < cl1
            then Some (Returns (- c / b))
            else cellWalk bathy gs gp0 gp1 gd l1 (nextCell gd cp exit) cl1)"
  using assms
  by (subst cellWalk.simps) (simp add: solveCell_def fdiv_def validIntersection_def)

theorem linear_branch_witness:
  "cellWalk (replicate 4 0) (3, 3) (1/10, 1/10, 1) (9/10, 1/10, 1) (4/5, 0, 0) 1 (0, 0) 0 =
     cellWalk (replicate 4 0) (3, 3) (1/10, 1/10, 1) (9/10, 1/10, 1) (4/5, 0, 0) 1
       (nextCell (4/5, 0, 0) (0, 0) (- 1)) 1"
  using linear_branch [of 0 1 "(1/10, 1/10, 1)" "(9/10, 1/10, 1)" "(4/5, 0, 0)" "(0, 0)" 1 "- 1"
      "replicate 4 0" "(3, 3)" "(0, 0, 0, 0)" 0 "- 1"]
  by (simp add: level_leave level_corners level_equation)

section \<open>Lemmas on the server\<close>

subsection \<open>The list surgery of disconnectClient\<close>

lemma findClient_Some: "findClient xs c = Some i \<Longrightarrow> i < length xs \<and> xs ! i = c"
  by (induction xs arbitrary: i) (auto split: if_splits)

lemma findClient_None: "findClient xs c = None \<longleftrightarrow> c \<notin> set xs"
  by (induction xs) auto

lemma findClient_mem: "c \<in> set xs \<Longrightarrow> \<exists>i. findClient xs c = Some i"
  using findClient_None [of xs c] by (cases "findClient xs c") auto

lemma mset_butlast:
  assumes "xs \<noteq> []"
  shows "mset (butlast xs) = mset xs - {#last xs#}"
proof -
  have "mset (butlast xs @ [last xs]) = mset xs" using assms by simp
  hence "mset (butlast xs) + mset [last xs] = mset xs" by (simp only: mset_append)
  hence "add_mset (last xs) (mset (butlast xs)) = mset xs" by simp
  thus ?thesis by (metis add_mset_remove_trivial)
qed

lemma swap_remove_mset:
  assumes "i < length xs"
  shows "mset (butlast (xs[i := last xs])) = mset xs - {#xs ! i#}"
proof (cases "i = length xs - 1")
  case True
  have ne: "xs \<noteq> []" using assms by auto
  have li: "last xs = xs ! i" using True ne by (simp add: last_conv_nth)
  hence "xs[i := last xs] = xs" by simp
  thus ?thesis using mset_butlast [OF ne] li by simp
next
  case False
  let ?ys = "xs[i := last xs]"
  have ne: "xs \<noteq> []" using assms by auto
  hence ne': "?ys \<noteq> []" by simp
  have l: "last ?ys = last xs" using False assms ne
    by (simp add: last_conv_nth)
  have "mset ?ys = add_mset (last xs) (mset xs - {#xs ! i#})"
    using assms by (simp add: mset_update)
  thus ?thesis using mset_butlast [OF ne'] l by simp
qed

lemma swap_remove_set:
  assumes "distinct xs" "i < length xs"
  shows "set (butlast (xs[i := last xs])) = set xs - {xs ! i}"
    and "distinct (butlast (xs[i := last xs]))"
proof -
  have m: "mset (butlast (xs[i := last xs])) = mset (remove1 (xs ! i) xs)"
    using swap_remove_mset [OF assms(2)] by simp
  have "set (butlast (xs[i := last xs])) = set (remove1 (xs ! i) xs)"
    using m by (rule mset_eq_setD)
  thus "set (butlast (xs[i := last xs])) = set xs - {xs ! i}"
    using assms by simp
  show "distinct (butlast (xs[i := last xs]))"
    using m assms by (metis distinct_remove1 mset_eq_imp_distinct_iff)
qed

lemma swap_remove_filter:
  assumes "i < length xs"
  shows "length (filter P (butlast (xs[i := last xs]))) =
         length (filter P xs) - (if P (xs ! i) then 1 else 0)"
proof -
  let ?ys = "butlast (xs[i := last xs])"
  have "xs ! i \<in># mset xs" using assms by simp
  hence "mset xs = add_mset (xs ! i) (mset xs - {#xs ! i#})" by simp
  hence "mset xs = add_mset (xs ! i) (mset ?ys)"
    using swap_remove_mset [OF assms] by simp
  hence "filter_mset P (mset xs) = filter_mset P (add_mset (xs ! i) (mset ?ys))" by simp
  hence "size (filter_mset P (mset xs)) =
         size (filter_mset P (mset ?ys)) + (if P (xs ! i) then 1 else 0)"
    by simp
  hence "length (filter P xs) = length (filter P ?ys) + (if P (xs ! i) then 1 else 0)"
    by (simp only: mset_filter [symmetric] size_mset)
  thus ?thesis by simp
qed

subsection \<open>disconnectClient\<close>

lemma disconnectClient_absent: "client \<notin> set (clients s) \<Longrightarrow> disconnectClient client rl s = s"
  by (simp add: disconnectClient_def findClient_None [THEN iffD2])

lemma disconnectClient_fields:
  assumes "client \<in> set (clients s)"
  shows "heap (disconnectClient client rl s) = (heap s)(client := None)"
    and "numClients (disconnectClient client rl s) =
           (if state (deref s client) = STREAMING then numClients s - 1 else numClients s)"
    and "listeners (disconnectClient client rl s) =
           (if rl then listeners s - {listenerKey (deref s client)} else listeners s)"
    and "gridSize (disconnectClient client rl s) = gridSize s"
    and "elevationRange (disconnectClient client rl s) = elevationRange s"
    and "cellSize (disconnectClient client rl s) = cellSize s"
  using findClient_mem [OF assms] by (auto simp add: disconnectClient_def)

lemma disconnectClient_clients:
  assumes "client \<in> set (clients s)" "distinct (clients s)"
  shows "set (clients (disconnectClient client rl s)) = set (clients s) - {client}"
    and "distinct (clients (disconnectClient client rl s))"
    and "length (filter P (clients (disconnectClient client rl s))) =
           length (filter P (clients s)) - (if P client then 1 else 0)"
proof -
  obtain i where i: "findClient (clients s) client = Some i"
    using findClient_mem [OF assms(1)] by blast
  note f = findClient_Some [OF i]
  have c: "clients (disconnectClient client rl s) = butlast ((clients s)[i := last (clients s)])"
    by (simp add: disconnectClient_def i)
  show "set (clients (disconnectClient client rl s)) = set (clients s) - {client}"
    unfolding c using swap_remove_set(1) [OF assms(2), of i] f by simp
  show "distinct (clients (disconnectClient client rl s))"
    unfolding c using swap_remove_set(2) [OF assms(2), of i] f by simp
  show "length (filter P (clients (disconnectClient client rl s))) =
           length (filter P (clients s)) - (if P client then 1 else 0)"
    unfolding c using swap_remove_filter [of i "clients s" P] f by simp
qed

lemma deref_disconnect:
  "a \<noteq> client \<Longrightarrow> deref (disconnectClient client rl s) a = deref s a"
  by (cases "client \<in> set (clients s)")
    (simp_all add: deref_def disconnectClient_fields disconnectClient_absent)

lemma filter_cong_set: "(\<And>x. x \<in> set xs \<Longrightarrow> P x = Q x) \<Longrightarrow> filter P xs = filter Q xs"
  by (rule filter_cong) simp_all

lemma wellFormed_disconnect:
  assumes "wellFormed s" "client \<in> set (clients s)"
  shows "wellFormed (disconnectClient client rl s)"
proof -
  let ?s' = "disconnectClient client rl s"
  have d: "distinct (clients s)" and dm: "dom (heap s) = set (clients s)"
    and n: "numClients s = of_nat (length (streamingClients s))"
    and sw: "\<forall>a \<in> set (clients s). state (deref s a) = START \<longrightarrow> \<not> swapOnRead (clientPipe (deref s a))"
    using assms(1) by (simp_all add: wellFormed_def)
  note cl = disconnectClient_clients [OF assms(2) d, where rl = rl]
  note fl = disconnectClient_fields [OF assms(2), where rl = rl]
  have same: "\<And>a. a \<in> set (clients ?s') \<Longrightarrow> deref ?s' a = deref s a"
    using cl(1) by (simp add: deref_disconnect)
  have "streamingClients ?s' = filter (\<lambda>a. state (deref s a) = STREAMING) (clients ?s')"
    unfolding streamingClients_def by (rule filter_cong_set) (simp add: same)
  hence len: "length (streamingClients ?s') =
      length (streamingClients s) - (if state (deref s client) = STREAMING then 1 else 0)"
    using cl(3) [where P = "\<lambda>a. state (deref s a) = STREAMING"] by (simp add: streamingClients_def)
  have pos: "state (deref s client) = STREAMING \<Longrightarrow> 0 < length (streamingClients s)"
    using assms(2) by (auto simp add: streamingClients_def filter_empty_conv)
  have num: "numClients ?s' = of_nat (length (streamingClients ?s'))"
  proof (cases "state (deref s client) = STREAMING")
    case True
    then obtain k where k: "length (streamingClients s) = Suc k"
      using pos by (cases "length (streamingClients s)") auto
    show ?thesis using True by (simp add: fl len n k)
  next
    case False
    then show ?thesis by (simp add: fl len n)
  qed
  have "dom (heap ?s') = set (clients ?s')"
    using dm by (auto simp add: fl cl(1))
  moreover have "\<forall>a \<in> set (clients ?s'). state (deref ?s' a) = START \<longrightarrow>
      \<not> swapOnRead (clientPipe (deref ?s' a))"
    using sw same cl(1) by auto
  ultimately show ?thesis using cl(2) num by (simp add: wellFormed_def)
qed

subsection \<open>Reads and writes keep the rest of the pipe\<close>

lemma readRaw_keeps:
  "readRaw n p = (r, p') \<Longrightarrow>
   swapOnRead p' = swapOnRead p \<and> sent p' = sent p \<and> writable p' = writable p"
  by (auto simp add: readRaw_def split: if_splits)

lemma read_UInt32_keeps:
  "read_UInt32 p = (r, p') \<Longrightarrow>
   swapOnRead p' = swapOnRead p \<and> sent p' = sent p \<and> writable p' = writable p"
  by (auto simp add: read_UInt32_def split: prod.splits sum.splits dest: readRaw_keeps)

lemma writeRaw_keeps:
  "writeRaw bs p = (r, p') \<Longrightarrow> swapOnRead p' = swapOnRead p \<and> received p' = received p"
  by (auto simp add: writeRaw_def split: option.splits if_splits)

lemma thenDo_keeps:
  assumes "thenDo m f = (r, p')"
    and "\<And>x q. m = (x, q) \<Longrightarrow> P q"
    and "\<And>x q r' q'. P q \<Longrightarrow> f x q = (r', q') \<Longrightarrow> P q'"
  shows "P p'"
  using assms by (cases m) (auto simp add: thenDo_def split: sum.splits)

lemma sendGreeting_keeps:
  assumes "sendGreeting f32 s p = (r, p')"
  shows "swapOnRead p' = swapOnRead p"
proof -
  let ?P = "\<lambda>q. swapOnRead q = swapOnRead p"
  have w32: "\<And>w q r' q'. ?P q \<Longrightarrow> write_UInt32 w q = (r', q') \<Longrightarrow> ?P q'"
    by (auto simp add: write_UInt32_def dest: writeRaw_keeps)
  have wf: "\<And>w q r' q'. ?P q \<Longrightarrow> write_Float32 w q = (r', q') \<Longrightarrow> ?P q'"
    by (auto simp add: write_Float32_def dest: writeRaw_keeps)
  have fl: "\<And>q r' q'. ?P q \<Longrightarrow> flush q = (r', q') \<Longrightarrow> ?P q'"
    by (simp add: flush_def)
  show ?thesis
    using assms unfolding sendGreeting_def
    apply (rule thenDo_keeps [where P = ?P])
     apply (erule w32 [OF refl])
    apply (erule thenDo_keeps [where P = ?P], erule w32, assumption)
    apply (erule thenDo_keeps [where P = ?P], erule wf, assumption)
    apply (erule thenDo_keeps [where P = ?P], erule w32, assumption)
    apply (erule thenDo_keeps [where P = ?P], erule wf, assumption)
    apply (erule thenDo_keeps [where P = ?P], erule wf, assumption)
    apply (erule thenDo_keeps [where P = ?P], erule wf, assumption)
    apply (erule fl, assumption)
    done
qed

subsection \<open>The invariant\<close>

lemma wellFormed_new: "wellFormed (RemoteServer_new tableSize tableCell domain listenKey)"
  by (simp add: wellFormed_def RemoteServer_new_def Let_def streamingClients_def)

lemma wellFormed_connection:
  assumes "wellFormed s" "a \<notin> dom (heap s)"
  shows "wellFormed (snd (newConnectionCallback f32 a key conn s))"
proof (cases conn)
  case None
  then show ?thesis using assms by (simp add: newConnectionCallback_def)
next
  case (Some c)
  obtain incoming limit where c: "c = (incoming, limit)" by (cases c)
  obtain r p where g: "sendGreeting f32 s (TCPPipe_new incoming limit) = (r, p)"
    by (cases "sendGreeting f32 s (TCPPipe_new incoming limit)")
  show ?thesis
  proof (cases r)
    case (Inl e)
    then show ?thesis using assms Some c g by (simp add: newConnectionCallback_def)
  next
    case (Inr u)
    let ?c = "\<lparr>clientPipe = p, listenerKey = key, state = START,
               position = None, direction = None\<rparr>"
    let ?s' = "s\<lparr>listeners := insert key (listeners s), clients := clients s @ [a],
                 heap := (heap s)(a \<mapsto> ?c)\<rparr>"
    have s': "snd (newConnectionCallback f32 a key conn s) = ?s'"
      using Some c g Inr by (simp add: newConnectionCallback_def)
    have d: "distinct (clients s)" and dm: "dom (heap s) = set (clients s)"
      and n: "numClients s = of_nat (length (streamingClients s))"
      and sw: "\<forall>a \<in> set (clients s). state (deref s a) = START \<longrightarrow>
                \<not> swapOnRead (clientPipe (deref s a))"
      using assms(1) by (simp_all add: wellFormed_def)
    have fresh: "a \<notin> set (clients s)" using assms(2) dm by simp
    have old: "\<And>x. x \<in> set (clients s) \<Longrightarrow> deref ?s' x = deref s x"
      using fresh by (auto simp add: deref_def)
    have new: "deref ?s' a = ?c" by (simp add: deref_def)
    have swp: "\<not> swapOnRead p"
      using sendGreeting_keeps [OF g] by (simp add: TCPPipe_new_def)
    have "filter (\<lambda>x. state (deref ?s' x) = STREAMING) (clients s) =
          filter (\<lambda>x. state (deref s x) = STREAMING) (clients s)"
      by (rule filter_cong_set) (simp add: old)
    hence st: "streamingClients ?s' = streamingClients s"
      by (simp add: streamingClients_def new)
    have "wellFormed ?s'"
      unfolding wellFormed_def st
      using d dm n sw fresh swp old new by auto
    thus ?thesis by (simp only: s')
  qed
qed

text \<open>Writing a client object back without changing its state.\<close>

lemma streamingClients_store_same:
  assumes "state c = state (deref s client)"
  shows "streamingClients (store client c s) = streamingClients s"
proof -
  have "\<And>a. state (deref (store client c s) a) = state (deref s a)"
    using assms by (simp add: store_def deref_def)
  thus ?thesis by (simp add: streamingClients_def store_def)
qed

lemma wellFormed_store_same:
  assumes "wellFormed s" "client \<in> set (clients s)" "state c = state (deref s client)"
    and "state c = START \<longrightarrow> \<not> swapOnRead (clientPipe c)"
  shows "wellFormed (store client c s)"
proof -
  have "numClients (store client c s) = numClients s" "clients (store client c s) = clients s"
    by (simp_all add: store_def)
  moreover have "dom (heap (store client c s)) = set (clients s)"
    using assms(1,2) by (auto simp add: store_def wellFormed_def)
  moreover have "\<forall>a \<in> set (clients s). state (deref (store client c s) a) = START \<longrightarrow>
      \<not> swapOnRead (clientPipe (deref (store client c s) a))"
    using assms by (auto simp add: store_def deref_def wellFormed_def)
  ultimately show ?thesis
    using assms(1) streamingClients_store_same [OF assms(3)]
    by (simp add: wellFormed_def)
qed

text \<open>Writing a client object back on its way from START to STREAMING.\<close>

lemma filter_flip_one:
  assumes "distinct xs" "c \<in> set xs" "\<not> P c" "Q c" "\<And>x. x \<noteq> c \<Longrightarrow> Q x = P x"
  shows "length (filter Q xs) = Suc (length (filter P xs))"
  using assms(1,2)
proof (induction xs)
  case Nil
  then show ?case by simp
next
  case (Cons x xs)
  show ?case
  proof (cases "x = c")
    case True
    hence "c \<notin> set xs" using Cons.prems by simp
    hence "\<And>x. x \<in> set xs \<Longrightarrow> Q x = P x"
      using assms(5) by metis
    hence "filter Q xs = filter P xs"
      by (rule filter_cong_set)
    then show ?thesis using True assms(3,4) by simp
  next
    case False
    hence "length (filter Q xs) = Suc (length (filter P xs))"
      using Cons by simp
    then show ?thesis using False assms(5) by simp
  qed
qed

lemma wellFormed_enter_streaming:
  assumes "wellFormed s" "client \<in> set (clients s)" "state (deref s client) = START"
    and "state c = STREAMING"
  shows "wellFormed ((store client c s)\<lparr>numClients := numClients s + 1\<rparr>)"
proof -
  let ?s' = "(store client c s)\<lparr>numClients := numClients s + 1\<rparr>"
  have d: "distinct (clients s)" and dm: "dom (heap s) = set (clients s)"
    and n: "numClients s = of_nat (length (streamingClients s))"
    and sw: "\<forall>a \<in> set (clients s). state (deref s a) = START \<longrightarrow>
              \<not> swapOnRead (clientPipe (deref s a))"
    using assms(1) by (simp_all add: wellFormed_def)
  have cl: "clients ?s' = clients s" by (simp add: store_def)
  have dr: "deref ?s' client = c" "\<And>a. a \<noteq> client \<Longrightarrow> deref ?s' a = deref s a"
    by (simp_all add: store_def deref_def)
  have "length (filter (\<lambda>a. state (deref ?s' a) = STREAMING) (clients s)) =
        Suc (length (filter (\<lambda>a. state (deref s a) = STREAMING) (clients s)))"
    by (rule filter_flip_one [OF d assms(2)]) (simp_all add: assms dr)
  hence len: "length (streamingClients ?s') = Suc (length (streamingClients s))"
    by (simp add: streamingClients_def cl)
  have "dom (heap ?s') = set (clients ?s')"
    using dm assms(2) by (auto simp add: store_def)
  moreover have "\<forall>a \<in> set (clients ?s'). state (deref ?s' a) = START \<longrightarrow>
      \<not> swapOnRead (clientPipe (deref ?s' a))"
    using sw dr assms(4) unfolding cl by (metis ClientStates.distinct(1))
  moreover have "numClients ?s' = of_nat (length (streamingClients ?s'))"
  proof -
    have "numClients ?s' = numClients s + 1" by simp
    also have "\<dots> = of_nat (length (streamingClients s)) + 1" by (simp only: n)
    also have "\<dots> = of_nat (Suc (length (streamingClients s)))" by simp
    also have "\<dots> = of_nat (length (streamingClients ?s'))" by (simp only: len)
    finally show ?thesis .
  qed
  ultimately show ?thesis using d cl by (simp add: wellFormed_def)
qed

subsection \<open>clientMessageCallback keeps the invariant\<close>

lemma read_UInt16_keeps:
  "read_UInt16 p = (r, p') \<Longrightarrow>
   swapOnRead p' = swapOnRead p \<and> sent p' = sent p \<and> writable p' = writable p"
  by (auto simp add: read_UInt16_def split: prod.splits sum.splits dest: readRaw_keeps)

lemma read_Float32s_keeps:
  "read_Float32s n p = (r, p') \<Longrightarrow>
   swapOnRead p' = swapOnRead p \<and> sent p' = sent p \<and> writable p' = writable p"
  by (auto simp add: read_Float32s_def split: prod.splits sum.splits dest: readRaw_keeps)

lemma wellFormed_listeners [simp]: "wellFormed (s\<lparr>listeners := X\<rparr>) = wellFormed s"
  by (simp add: wellFormed_def streamingClients_def deref_def)

lemma clients_store [simp]: "clients (store a c s) = clients s"
  by (simp add: store_def)

lemma handleSTART_wellFormed:
  assumes "wellFormed s" "client \<in> set (clients s)" "state (deref s client) = START"
    and "handleSTART client s = (r, s')"
  shows "wellFormed s' \<and> clients s' = clients s"
proof -
  let ?c = "deref s client"
  obtain x p where rd: "read_UInt32 (clientPipe ?c) = (x, p)"
    by (cases "read_UInt32 (clientPipe ?c)")
  have "\<not> swapOnRead (clientPipe ?c)"
    using assms(1-3) by (simp add: wellFormed_def)
  hence sw: "\<not> swapOnRead p" using read_UInt32_keeps [OF rd] by simp
  have keep: "wellFormed (store client (?c\<lparr>clientPipe := p\<rparr>) s)"
    by (rule wellFormed_store_same [OF assms(1,2)]) (simp_all add: sw)
  have enter: "\<And>q. wellFormed ((store client (?c\<lparr>clientPipe := q, state := STREAMING\<rparr>) s)
      \<lparr>numClients := numClients s + 1\<rparr>)"
    by (rule wellFormed_enter_streaming [OF assms(1-3)]) simp
  show ?thesis
    using assms(4) keep enter
    by (auto simp add: handleSTART_def Let_def rd split: sum.splits if_splits)
qed

lemma handleSTREAMING_wellFormed:
  assumes "wellFormed s" "client \<in> set (clients s)" "state (deref s client) = STREAMING"
    and "handleSTREAMING client s = (r, s')"
  shows "wellFormed s' \<and> clients s' = clients s"
proof -
  let ?c = "deref s client"
  have keep: "\<And>c. state c = STREAMING \<Longrightarrow> wellFormed (store client c s)"
    by (rule wellFormed_store_same [OF assms(1,2)]) (simp_all add: assms(3))
  show ?thesis
    using assms(4)
    by (auto simp add: handleSTREAMING_def Let_def assms(3) intro!: keep
        split: sum.splits if_splits prod.splits)
qed

lemma clientMessageCallback_wellFormed:
  assumes "wellFormed s" "client \<in> set (clients s)"
  shows "wellFormed (snd (clientMessageCallback client s))"
proof -
  obtain r s' where h: "(case state (deref s client) of
              START \<Rightarrow> handleSTART client s
            | STREAMING \<Rightarrow> handleSTREAMING client s) = (r, s')"
    by (cases "case state (deref s client) of
              START \<Rightarrow> handleSTART client s
            | STREAMING \<Rightarrow> handleSTREAMING client s")
  have w: "wellFormed s' \<and> clients s' = clients s"
    using h handleSTART_wellFormed [OF assms] handleSTREAMING_wellFormed [OF assms]
    by (cases "state (deref s client)") auto
  show ?thesis
  proof (cases r)
    case (Inl e)
    have "wellFormed (disconnectClient client False s')"
      by (rule wellFormed_disconnect) (use w assms(2) in simp_all)
    then show ?thesis using h Inl by (simp add: clientMessageCallback_def)
  next
    case (Inr u)
    then show ?thesis using h w by (simp add: clientMessageCallback_def)
  qed
qed

lemma dispatchClientEvent_wellFormed:
  assumes "wellFormed s" "client \<in> set (clients s)"
  shows "wellFormed (dispatchClientEvent client s)"
  using clientMessageCallback_wellFormed [OF assms]
  by (cases "clientMessageCallback client s") (simp add: dispatchClientEvent_def Let_def)

subsection \<open>The broadcast\<close>

lemma sendToClients_result:
  assumes "distinct cs"
  shows "sendToClients cs gb s dead =
     (dead @ filter (throwsFor gb s) cs,
      s\<lparr>heap := (\<lambda>a. if a \<in> set cs \<and> state (deref s a) = STREAMING
                       then Some (sentTo gb s a) else heap s a)\<rparr>)"
  using assms
proof (induction cs arbitrary: s dead)
  case Nil
  then show ?case by simp
next
  case (Cons c cs)
  have dc: "distinct cs" and nc: "c \<notin> set cs" using Cons.prems by simp_all
  show ?case
  proof (cases "state (deref s c) = STREAMING")
    case False
    have "(\<lambda>a. if a \<in> set (c # cs) \<and> state (deref s a) = STREAMING
                then Some (sentTo gb s a) else heap s a) =
          (\<lambda>a. if a \<in> set cs \<and> state (deref s a) = STREAMING
                then Some (sentTo gb s a) else heap s a)"
      using False by auto
    then show ?thesis
      using False Cons.IH [OF dc, of s dead] by (simp add: throwsFor_def)
  next
    case True
    obtain r p where sg: "sendGrids (gridSize s) (elevationRange s) gb (clientPipe (deref s c)) = (r, p)"
      by (cases "sendGrids (gridSize s) (elevationRange s) gb (clientPipe (deref s c))")
    let ?s1 = "store c ((deref s c)\<lparr>clientPipe := p\<rparr>) s"
    have same: "\<And>a. a \<noteq> c \<Longrightarrow> deref ?s1 a = deref s a"
      by (simp add: store_def deref_def)
    have geo: "gridSize ?s1 = gridSize s" "elevationRange ?s1 = elevationRange s"
      by (simp_all add: store_def)
    have same': "\<And>a. a \<in> set cs \<Longrightarrow> deref ?s1 a = deref s a"
      using nc same by metis
    have thr: "filter (throwsFor gb ?s1) cs = filter (throwsFor gb s) cs"
      by (rule filter_cong_set) (simp add: throwsFor_def same' geo)
    have st: "\<And>a. a \<in> set cs \<Longrightarrow> sentTo gb ?s1 a = sentTo gb s a"
      by (simp add: sentTo_def same' geo)
    have hp: "?s1\<lparr>heap := (\<lambda>a. if a \<in> set cs \<and> state (deref ?s1 a) = STREAMING
                       then Some (sentTo gb ?s1 a) else heap ?s1 a)\<rparr> =
              s\<lparr>heap := (\<lambda>a. if a \<in> set (c # cs) \<and> state (deref s a) = STREAMING
                       then Some (sentTo gb s a) else heap s a)\<rparr>"
    proof -
      have "(\<lambda>a. if a \<in> set cs \<and> state (deref ?s1 a) = STREAMING
                       then Some (sentTo gb ?s1 a) else heap ?s1 a) =
            (\<lambda>a. if a \<in> set (c # cs) \<and> state (deref s a) = STREAMING
                       then Some (sentTo gb s a) else heap s a)"
      proof (rule ext)
        fix a
        show "(if a \<in> set cs \<and> state (deref ?s1 a) = STREAMING
                       then Some (sentTo gb ?s1 a) else heap ?s1 a) =
              (if a \<in> set (c # cs) \<and> state (deref s a) = STREAMING
                       then Some (sentTo gb s a) else heap s a)"
        proof (cases "a = c")
          case True
          then show ?thesis using nc \<open>state (deref s c) = STREAMING\<close> sg
            by (simp add: store_def sentTo_def)
        next
          case False
          then show ?thesis using same [OF False] st [of a]
            by (auto simp add: store_def)
        qed
      qed
      thus ?thesis by (simp add: store_def)
    qed
    show ?thesis
    proof (cases r)
      case (Inl e)
      have thc: "throwsFor gb s c" using True sg Inl by (simp add: throwsFor_def)
      have "sendToClients (c # cs) gb s dead = sendToClients cs gb ?s1 (dead @ [c])"
        using True sg Inl by simp
      also have "\<dots> = ((dead @ [c]) @ filter (throwsFor gb ?s1) cs,
          ?s1\<lparr>heap := (\<lambda>a. if a \<in> set cs \<and> state (deref ?s1 a) = STREAMING
                       then Some (sentTo gb ?s1 a) else heap ?s1 a)\<rparr>)"
        by (rule Cons.IH [OF dc])
      finally show ?thesis
        using thc by (simp only: thr hp) simp
    next
      case (Inr u)
      have thc: "\<not> throwsFor gb s c" using True sg Inr by (simp add: throwsFor_def)
      have "sendToClients (c # cs) gb s dead = sendToClients cs gb ?s1 dead"
        using True sg Inr by simp
      also have "\<dots> = (dead @ filter (throwsFor gb ?s1) cs,
          ?s1\<lparr>heap := (\<lambda>a. if a \<in> set cs \<and> state (deref ?s1 a) = STREAMING
                       then Some (sentTo gb ?s1 a) else heap ?s1 a)\<rparr>)"
        by (rule Cons.IH [OF dc])
      finally show ?thesis
        using thc by (simp only: thr hp) simp
    qed
  qed
qed

section \<open>Lemmas on the snapshot message\<close>

subsection \<open>Writing a list of codes\<close>

lemma writeCodes_append:
  "writeCodes (ks @ ls) p =
     (case writeCodes ks p of (Inl e, p') \<Rightarrow> (Inl e, p') | (Inr _, p') \<Rightarrow> writeCodes ls p')"
  by (induction ks arbitrary: p) (auto split: prod.splits sum.splits)

lemma forLoop_done: "\<not> i < n \<Longrightarrow> forLoop i n body s = (Inr (), s)"
  by (subst forLoop.simps) simp

lemma forLoop_step:
  "i < n \<Longrightarrow> forLoop i n body s =
     (case body i s of (Inl e, s') \<Rightarrow> (Inl e, s') | (Inr _, s') \<Rightarrow> forLoop (i + 1) n body s')"
  by (subst forLoop.simps) simp

text \<open>A row of samples: the inner loop of a grid.\<close>

lemma sendRow:
  assumes "ptr + nat (n - i) \<le> length grid"
  shows "forLoop i n (\<lambda>x. sendSample er grid) (ptr, p) =
     (case writeCodes (map (quantize er) (take (nat (n - i)) (drop ptr grid))) p of
        (Inl e, p') \<Rightarrow> (Inl e, (fst (snd (forLoop i n (\<lambda>x. sendSample er grid) (ptr, p))), p'))
      | (Inr _, p') \<Rightarrow> (Inr (), (ptr + nat (n - i), p')))"
  using assms
proof (induction i n "\<lambda>x::int. sendSample er grid" "(ptr, p)" arbitrary: ptr p rule: forLoop.induct)
  case (1 i n)
  show ?case
  proof (cases "i < n")
    case False
    then show ?thesis by (simp add: forLoop_done)
  next
    case True
    hence k: "nat (n - i) = Suc (nat (n - (i + 1)))" by simp
    have lt: "ptr < length grid" using "1.prems" True by simp
    have tk: "take (nat (n - i)) (drop ptr grid) =
              grid ! ptr # take (nat (n - (i + 1))) (drop (Suc ptr) grid)"
      unfolding k using lt by (simp add: Cons_nth_drop_Suc [symmetric])
    obtain r p' where w: "write_UInt16 (quantize er (grid ! ptr)) p = (r, p')"
      by (cases "write_UInt16 (quantize er (grid ! ptr)) p")
    show ?thesis
    proof (cases r)
      case (Inl e)
      then show ?thesis
        using True w by (simp add: forLoop_step tk sendSample_def)
    next
      case (Inr u)
      have b: "sendSample er grid (ptr, p) = (Inr (), (Suc ptr, p'))"
        using w Inr by (simp add: sendSample_def)
      have pre: "Suc ptr + nat (n - (i + 1)) \<le> length grid"
        using "1.prems" k by simp
      note ih = "1.hyps" [OF True b [symmetric] refl pre]
      have step: "forLoop i n (\<lambda>x. sendSample er grid) (ptr, p) =
                  forLoop (i + 1) n (\<lambda>x. sendSample er grid) (Suc ptr, p')"
        using True b by (simp add: forLoop_step)
      show ?thesis
        unfolding step tk using w Inr ih k
        by (auto split: prod.splits sum.splits)
    qed
  qed
qed

lemma sendRow_pipe:
  assumes "ptr + nat (n - i) \<le> length grid"
  shows "dropPtr (forLoop i n (\<lambda>x. sendSample er grid) (ptr, p)) =
         writeCodes (map (quantize er) (take (nat (n - i)) (drop ptr grid))) p"
  by (subst sendRow [OF assms]) (auto simp add: dropPtr_def split: prod.splits sum.splits)

lemma sendRow_ptr:
  assumes "ptr + nat (n - i) \<le> length grid"
    and "forLoop i n (\<lambda>x. sendSample er grid) (ptr, p) = (Inr u, (ptr', p'))"
  shows "ptr' = ptr + nat (n - i)"
  using assms(2) by (subst (asm) sendRow [OF assms(1)]) (auto split: prod.splits sum.splits)

lemma take_add_drop: "take (a + b) xs = take a xs @ take b (drop a xs)"
  by (simp add: take_add)

lemma sendRows:
  assumes "ptr + nat (m - j) * nat n \<le> length grid"
  shows "dropPtr (forLoop j m (\<lambda>y. forLoop 0 n (\<lambda>x. sendSample er grid)) (ptr, p)) =
         writeCodes (map (quantize er) (take (nat (m - j) * nat n) (drop ptr grid))) p"
  using assms
proof (induction j m "\<lambda>y::int. forLoop 0 n (\<lambda>x::int. sendSample er grid)" "(ptr, p)"
    arbitrary: ptr p rule: forLoop.induct)
  case (1 j m)
  let ?row = "forLoop 0 n (\<lambda>x. sendSample er grid)"
  show ?case
  proof (cases "j < m")
    case False
    then show ?thesis by (simp add: dropPtr_def forLoop_done)
  next
    case True
    hence k: "nat (m - j) = Suc (nat (m - (j + 1)))" by simp
    have rowb: "ptr + nat (n - 0) \<le> length grid"
      using "1.prems" unfolding k by simp
    obtain r ptr' p' where row: "?row (ptr, p) = (r, (ptr', p'))"
      by (cases "?row (ptr, p)") auto
    have rp: "writeCodes (map (quantize er) (take (nat n) (drop ptr grid))) p = (r, p')"
      using sendRow_pipe [OF rowb, of er p] row by (simp add: dropPtr_def)
    have tk: "take (nat (m - j) * nat n) (drop ptr grid) =
        take (nat n) (drop ptr grid) @
        take (nat (m - (j + 1)) * nat n) (drop (ptr + nat n) grid)"
      unfolding k by (simp add: take_add_drop add.commute)
    show ?thesis
    proof (cases r)
      case (Inl e)
      have "forLoop j m (\<lambda>y. ?row) (ptr, p) = (Inl e, (ptr', p'))"
        using True row Inl by (simp add: forLoop_step)
      then show ?thesis
        using rp Inl by (simp add: tk writeCodes_append dropPtr_def)
    next
      case (Inr u)
      have pt: "ptr' = ptr + nat n"
        using sendRow_ptr [OF rowb] row Inr by simp
      have pre: "ptr' + nat (m - (j + 1)) * nat n \<le> length grid"
        using "1.prems" unfolding k pt by (simp add: algebra_simps)
      have row': "(Inr u, ptr', p') = ?row (ptr, p)" using row Inr by simp
      note ih = "1.hyps" [OF True row' refl pre]
      have step: "forLoop j m (\<lambda>y. ?row) (ptr, p) = forLoop (j + 1) m (\<lambda>y. ?row) (ptr', p')"
        using True row Inr by (simp add: forLoop_step)
      show ?thesis
        unfolding step ih tk using rp Inr pt
        by (simp add: writeCodes_append)
    qed
  qed
qed

lemma sendGrids_writeCodes:
  assumes "1 \<le> fst gs" "1 \<le> snd gs"
    and "nat ((fst gs - 1) * (snd gs - 1)) \<le> length (bathymetry gb)"
    and "nat (fst gs * snd gs) \<le> length (waterLevel gb)"
  shows "sendGrids gs er gb p = writeCodes (snapshotCodes gs er gb) p"
proof -
  have n1: "nat (snd gs - 1 - 0) * nat (fst gs - 1) = nat ((fst gs - 1) * (snd gs - 1))"
    using assms(1,2) by (simp add: nat_mult_distrib mult.commute)
  have n2: "nat (snd gs - 0) * nat (fst gs) = nat (fst gs * snd gs)"
    using assms(1,2) by (simp add: nat_mult_distrib mult.commute)
  have b: "dropPtr (forLoop 0 (snd gs - 1)
             (\<lambda>y. forLoop 0 (fst gs - 1) (\<lambda>x. sendSample er (bathymetry gb))) (0, p)) =
           writeCodes (map (quantize er)
             (take (nat ((fst gs - 1) * (snd gs - 1))) (bathymetry gb))) p"
    using sendRows [of 0 "snd gs - 1" 0 "fst gs - 1" "bathymetry gb" er p] assms(3)
    unfolding n1 by simp
  have w: "\<And>q. dropPtr (forLoop 0 (snd gs)
             (\<lambda>y. forLoop 0 (fst gs) (\<lambda>x. sendSample er (waterLevel gb))) (0, q)) =
           writeCodes (map (quantize er) (take (nat (fst gs * snd gs)) (waterLevel gb))) q"
    using sendRows [of 0 "snd gs" 0 "fst gs" "waterLevel gb" er] assms(4)
    unfolding n2 by simp
  obtain r1 bPtr p1 where l1: "forLoop 0 (snd gs - 1)
             (\<lambda>y. forLoop 0 (fst gs - 1) (\<lambda>x. sendSample er (bathymetry gb))) (0, p) =
             (r1, (bPtr, p1))"
    by (metis surj_pair)
  have w1: "writeCodes (map (quantize er)
             (take (nat ((fst gs - 1) * (snd gs - 1))) (bathymetry gb))) p = (r1, p1)"
    using b l1 by (simp add: dropPtr_def)
  show ?thesis
  proof (cases r1)
    case (Inl e)
    then show ?thesis
      using l1 w1 by (simp add: sendGrids_def snapshotCodes_def writeCodes_append)
  next
    case (Inr u)
    obtain r2 wlPtr p2 where l2: "forLoop 0 (snd gs)
             (\<lambda>y. forLoop 0 (fst gs) (\<lambda>x. sendSample er (waterLevel gb))) (0, p1) =
             (r2, (wlPtr, p2))"
      by (metis surj_pair)
    have w2: "writeCodes (map (quantize er) (take (nat (fst gs * snd gs)) (waterLevel gb))) p1 =
        (r2, p2)"
      using w [of p1] l2 by (simp add: dropPtr_def)
    show ?thesis
      using l1 w1 l2 w2 Inr
      by (cases r2) (simp_all add: sendGrids_def snapshotCodes_def writeCodes_append flush_def)
  qed
qed

subsection \<open>What writing the codes does to the pipe\<close>

lemma write_UInt16_ok:
  "write_UInt16 k p = (Inr u, p') \<Longrightarrow>
   sent p' = sent p @ hostBytes16 k \<and> swapOnRead p' = swapOnRead p \<and> received p' = received p"
  by (auto simp add: write_UInt16_def writeRaw_def split: option.splits if_splits)

lemma writeCodes_ok:
  "writeCodes ks p = (Inr u, p') \<Longrightarrow>
   sent p' = sent p @ concat (map hostBytes16 ks) \<and> swapOnRead p' = swapOnRead p \<and>
   received p' = received p"
proof (induction ks arbitrary: p)
  case Nil
  then show ?case by simp
next
  case (Cons k ks)
  obtain r p1 where w: "write_UInt16 k p = (r, p1)" by (cases "write_UInt16 k p")
  show ?case
  proof (cases r)
    case (Inl e)
    then show ?thesis using Cons.prems w by simp
  next
    case (Inr v)
    hence "writeCodes ks p1 = (Inr u, p')" using Cons.prems w by simp
    from Cons.IH [OF this] write_UInt16_ok [OF w [unfolded Inr]]
    show ?thesis by simp
  qed
qed

lemma writeCodes_unlimited:
  "writable p = None \<Longrightarrow>
   writeCodes ks p = (Inr (), p\<lparr>sent := sent p @ concat (map hostBytes16 ks)\<rparr>)"
proof (induction ks arbitrary: p)
  case Nil
  then show ?case by simp
next
  case (Cons k ks)
  have w: "write_UInt16 k p = (Inr (), p\<lparr>sent := sent p @ hostBytes16 k\<rparr>)"
    using Cons.prems by (simp add: write_UInt16_def writeRaw_def)
  have "writable (p\<lparr>sent := sent p @ hostBytes16 k\<rparr>) = None" using Cons.prems by simp
  from Cons.IH [OF this] show ?case by (simp add: w)
qed

lemma writeCodes_fails_iff:
  "isl (fst (writeCodes ks p)) \<longleftrightarrow> (\<exists>k. writable p = Some k \<and> k < 2 * length ks)"
proof (induction ks arbitrary: p)
  case Nil
  then show ?case by simp
next
  case (Cons c ks)
  show ?case
  proof (cases "writable p")
    case None
    then show ?thesis using writeCodes_unlimited [OF None, of "c # ks"] by simp
  next
    case (Some k)
    show ?thesis
    proof (cases "2 \<le> k")
      case False
      then show ?thesis using Some
        by (simp add: write_UInt16_def writeRaw_def hostBytes16_def)
    next
      case True
      let ?p1 = "p\<lparr>sent := sent p @ hostBytes16 c, writable := Some (k - 2)\<rparr>"
      have w: "write_UInt16 c p = (Inr (), ?p1)"
        using Some True by (simp add: write_UInt16_def writeRaw_def hostBytes16_def)
      have "isl (fst (writeCodes (c # ks) p)) = isl (fst (writeCodes ks ?p1))"
        by (simp add: w)
      also have "\<dots> = (\<exists>k'. writable ?p1 = Some k' \<and> k' < 2 * length ks)"
        by (rule Cons.IH)
      also have "\<dots> = (\<exists>k'. writable p = Some k' \<and> k' < 2 * length (c # ks))"
        using Some True by auto
      finally show ?thesis .
    qed
  qed
qed

lemma length_snapshotBytes:
  assumes "1 \<le> fst gs" "1 \<le> snd gs"
    and "nat ((fst gs - 1) * (snd gs - 1)) \<le> length (bathymetry gb)"
    and "nat (fst gs * snd gs) \<le> length (waterLevel gb)"
  shows "length (snapshotCodes gs er gb) = nat ((fst gs - 1) * (snd gs - 1) + fst gs * snd gs)"
    and "length (snapshotBytes gs er gb) = 2 * length (snapshotCodes gs er gb)"
proof -
  show "length (snapshotCodes gs er gb) = nat ((fst gs - 1) * (snd gs - 1) + fst gs * snd gs)"
    using assms by (simp add: snapshotCodes_def nat_add_distrib)
  have "\<And>ks. length (concat (map hostBytes16 ks)) = 2 * length ks"
    by (induct_tac ks) (simp_all add: hostBytes16_def)
  thus "length (snapshotBytes gs er gb) = 2 * length (snapshotCodes gs er gb)"
    by (simp add: snapshotBytes_def)
qed

lemma read_UInt16_ok:
  assumes "received p = a # b # rest"
  shows "read_UInt16 p = (Inr (hostValue (swapOnRead p) [a, b]), p\<lparr>received := rest\<rparr>)"
  using assms by (simp add: read_UInt16_def readRaw_def)

lemma readCodes_ok:
  "2 * n \<le> length (received p) \<Longrightarrow>
   readCodes n p = (Inr (wireCodes (swapOnRead p) (take (2 * n) (received p))),
                    p\<lparr>received := drop (2 * n) (received p)\<rparr>)"
proof (induction n arbitrary: p)
  case 0
  then show ?case by simp
next
  case (Suc n)
  then obtain a b rest where r: "received p = a # b # rest"
    by (cases "received p"; cases "tl (received p)") auto
  let ?p1 = "p\<lparr>received := rest\<rparr>"
  have "2 * n \<le> length (received ?p1)" using Suc.prems r by simp
  from Suc.IH [OF this] show ?case
    by (simp add: read_UInt16_ok [OF r] r)
qed

lemma readCodes_append:
  "readCodes (a + b) p =
     (case readCodes a p of
        (Inl e, p') \<Rightarrow> (Inl e, p')
      | (Inr ks, p') \<Rightarrow>
          (case readCodes b p' of
             (Inl e, p'') \<Rightarrow> (Inl e, p'')
           | (Inr ls, p'') \<Rightarrow> (Inr (ks @ ls), p'')))"
  by (induction a arbitrary: p) (auto split: prod.splits sum.splits)

lemma readCodes_length: "readCodes n p = (Inr ks, p') \<Longrightarrow> length ks = n"
  by (induction n arbitrary: p ks) (auto split: prod.splits sum.splits)

lemma filled_Nil [simp]: "filled grid ptr [] = grid"
  by (simp add: filled_def)

lemma filled_Cons:
  "ptr < length grid \<Longrightarrow> filled (grid[ptr := v]) (Suc ptr) vs = filled grid ptr (v # vs)"
  by (simp add: filled_def take_Suc_conv_app_nth)

lemma filled_append:
  "filled (filled grid ptr vs) (ptr + length vs) ws = filled grid ptr (vs @ ws)"
  if "ptr + length vs \<le> length grid"
proof -
  have "length grid \<le> ptr \<Longrightarrow> vs = []" using that by (cases vs) auto
  thus ?thesis using that by (auto simp add: filled_def min_def ac_simps)
qed

lemma length_filled [simp]:
  "ptr + length vs \<le> length grid \<Longrightarrow> length (filled grid ptr vs) = length grid"
  by (simp add: filled_def)

lemma receiveRow_ok:
  assumes "readCodes (nat (n - i)) p = (Inr ks, p')" "ptr + nat (n - i) \<le> length grid"
  shows "forLoop i n (\<lambda>x. receiveSample er) (ptr, grid, p) =
         (Inr (), (ptr + nat (n - i), filled grid ptr (map (dequantize er) ks), p'))"
  using assms
proof (induction i n "\<lambda>x::int. receiveSample er" "(ptr, grid, p)"
    arbitrary: ptr grid p ks rule: forLoop.induct)
  case (1 i n)
  show ?case
  proof (cases "i < n")
    case False
    then show ?thesis using "1.prems" by (simp add: forLoop_done)
  next
    case True
    hence k: "nat (n - i) = Suc (nat (n - (i + 1)))" by simp
    have lt: "ptr < length grid" using "1.prems" True by simp
    from "1.prems"(1) obtain c p1 ks' where
      rd: "read_UInt16 p = (Inr c, p1)" and rest: "readCodes (nat (n - (i + 1))) p1 = (Inr ks', p')"
      and ks: "ks = c # ks'"
      unfolding k by (auto split: prod.splits sum.splits)
    have b: "receiveSample er (ptr, grid, p) = (Inr (), (Suc ptr, grid[ptr := dequantize er c], p1))"
      using rd by (simp add: receiveSample_def)
    have pre: "Suc ptr + nat (n - (i + 1)) \<le> length (grid[ptr := dequantize er c])"
      using "1.prems"(2) k by simp
    note ih = "1.hyps" [OF True b [symmetric] refl rest pre]
    have "forLoop i n (\<lambda>x. receiveSample er) (ptr, grid, p) =
          forLoop (i + 1) n (\<lambda>x. receiveSample er) (Suc ptr, grid[ptr := dequantize er c], p1)"
      using True b by (simp add: forLoop_step)
    thus ?thesis unfolding ih ks k using lt by (simp add: filled_Cons)
  qed
qed

lemma readCodes_split:
  assumes "readCodes (a + b) p = (Inr ks, p')"
  obtains ks1 p1 ks2 where "readCodes a p = (Inr ks1, p1)" "readCodes b p1 = (Inr ks2, p')"
    "ks = ks1 @ ks2"
  using assms unfolding readCodes_append by (auto split: prod.splits sum.splits)

lemma receiveRows_ok:
  assumes "readCodes (nat (m - j) * nat n) p = (Inr ks, p')"
    and "ptr + nat (m - j) * nat n \<le> length grid"
  shows "forLoop j m (\<lambda>y. forLoop 0 n (\<lambda>x. receiveSample er)) (ptr, grid, p) =
         (Inr (), (ptr + nat (m - j) * nat n, filled grid ptr (map (dequantize er) ks), p'))"
  using assms
proof (induction j m "\<lambda>y::int. forLoop 0 n (\<lambda>x::int. receiveSample er)" "(ptr, grid, p)"
    arbitrary: ptr grid p ks rule: forLoop.induct)
  case (1 j m)
  let ?row = "forLoop 0 n (\<lambda>x. receiveSample er)"
  show ?case
  proof (cases "j < m")
    case False
    then show ?thesis using "1.prems" by (simp add: forLoop_done)
  next
    case True
    hence k: "nat (m - j) = Suc (nat (m - (j + 1)))" by simp
    have "readCodes (nat n + nat (m - (j + 1)) * nat n) p = (Inr ks, p')"
      using "1.prems"(1) unfolding k by simp
    then obtain ks1 p1 ks2 where
      r1: "readCodes (nat n) p = (Inr ks1, p1)"
      and r2: "readCodes (nat (m - (j + 1)) * nat n) p1 = (Inr ks2, p')"
      and ks: "ks = ks1 @ ks2"
      by (rule readCodes_split)
    have l1: "length ks1 = nat n" by (rule readCodes_length [OF r1])
    have rowb: "ptr + nat (n - 0) \<le> length grid"
      using "1.prems"(2) unfolding k by simp
    have row: "?row (ptr, grid, p) =
        (Inr (), (ptr + nat n, filled grid ptr (map (dequantize er) ks1), p1))"
      using receiveRow_ok [of n 0 p ks1 p1 ptr grid er] r1 rowb by simp
    have pre: "ptr + nat n + nat (m - (j + 1)) * nat n
        \<le> length (filled grid ptr (map (dequantize er) ks1))"
      using "1.prems"(2) rowb l1 unfolding k by simp
    note ih = "1.hyps" [OF True row [symmetric] refl r2 pre]
    have "forLoop j m (\<lambda>y. ?row) (ptr, grid, p) =
          forLoop (j + 1) m (\<lambda>y. ?row)
            (ptr + nat n, filled grid ptr (map (dequantize er) ks1), p1)"
      using True row by (simp add: forLoop_step)
    moreover have "filled (filled grid ptr (map (dequantize er) ks1)) (ptr + nat n)
        (map (dequantize er) ks2) = filled grid ptr (map (dequantize er) ks)"
      using filled_append [of ptr "map (dequantize er) ks1" grid "map (dequantize er) ks2"]
        rowb l1 ks by simp
    ultimately show ?thesis unfolding ih k by (simp add: ac_simps)
  qed
qed

lemma filled_all: "length vs = length grid \<Longrightarrow> filled grid 0 vs = vs"
  by (simp add: filled_def)

lemma wireCodes_append:
  "even (length bs) \<Longrightarrow> wireCodes swap (bs @ cs) = wireCodes swap bs @ wireCodes swap cs"
  by (induction swap bs rule: wireCodes.induct) auto

lemma readGrids_ok:
  fixes s :: SandboxClient
  defines "tb \<equiv> startNewValue (grids s)"
  defines "gb \<equiv> buffer tb ! nextIndex tb"
  assumes gs: "sc_gridSize s = (W, H)" "1 \<le> W" "1 \<le> H"
    and p: "pipe s = Some p"
    and sizes: "length (bathymetry gb) = nat ((W - 1) * (H - 1))"
      "length (waterLevel gb) = nat (W * H)"
    and enough: "2 * (nat ((W - 1) * (H - 1)) + nat (W * H)) \<le> length (received p)"
  shows "readGrids s =
    (Inr (),
     s\<lparr>pipe := Some (p\<lparr>received :=
            drop (2 * (nat ((W - 1) * (H - 1)) + nat (W * H))) (received p)\<rparr>),
       grids := postNewValue (tb\<lparr>buffer := (buffer tb)[nextIndex tb :=
         gb\<lparr>bathymetry := map (dequantize (sc_elevationRange s))
               (take (nat ((W - 1) * (H - 1)))
                 (wireCodes (swapOnRead p)
                   (take (2 * (nat ((W - 1) * (H - 1)) + nat (W * H))) (received p)))),
            waterLevel := map (dequantize (sc_elevationRange s))
               (drop (nat ((W - 1) * (H - 1)))
                 (wireCodes (swapOnRead p)
                   (take (2 * (nat ((W - 1) * (H - 1)) + nat (W * H))) (received p))))\<rparr>]\<rparr>)\<rparr>)"
proof -
  define n1 where "n1 = nat ((W - 1) * (H - 1))"
  define n2 where "n2 = nat (W * H)"
  let ?er = "sc_elevationRange s"
  have m1: "nat (H - 1 - 0) * nat (W - 1) = n1"
    using gs(2,3) by (simp add: n1_def nat_mult_distrib mult.commute)
  have m2: "nat (H - 0) * nat W = n2"
    using gs(2,3) by (simp add: n2_def nat_mult_distrib mult.commute)
  have en: "2 * (n1 + n2) \<le> length (received p)"
    using enough by (simp add: n1_def n2_def)
  let ?p1 = "p\<lparr>received := drop (2 * n1) (received p)\<rparr>"
  let ?p2 = "p\<lparr>received := drop (2 * (n1 + n2)) (received p)\<rparr>"
  let ?k1 = "wireCodes (swapOnRead p) (take (2 * n1) (received p))"
  let ?k2 = "wireCodes (swapOnRead p) (take (2 * n2) (drop (2 * n1) (received p)))"
  have r1: "readCodes n1 p = (Inr ?k1, ?p1)"
    by (rule readCodes_ok) (use en in simp)
  have "readCodes n2 ?p1 = (Inr (wireCodes (swapOnRead ?p1) (take (2 * n2) (received ?p1))),
      ?p1\<lparr>received := drop (2 * n2) (received ?p1)\<rparr>)"
    by (rule readCodes_ok) (use en in simp)
  moreover have "?p1\<lparr>received := drop (2 * n2) (received ?p1)\<rparr> = ?p2"
    by (simp add: add.commute distrib_left)
  ultimately have r2: "readCodes n2 ?p1 = (Inr ?k2, ?p2)" by simp
  have lk1: "length ?k1 = n1" by (rule readCodes_length [OF r1])
  have lk2: "length ?k2 = n2" by (rule readCodes_length [OF r2])
  have loop1: "forLoop 0 (H - 1) (\<lambda>y. forLoop 0 (W - 1) (\<lambda>x. receiveSample ?er))
      (0, bathymetry gb, p) = (Inr (), (n1, map (dequantize ?er) ?k1, ?p1))"
    using receiveRows_ok [of "H - 1" 0 "W - 1" p ?k1 ?p1 0 "bathymetry gb" ?er]
      r1 sizes(1) lk1 unfolding m1 n1_def [symmetric] by (simp add: filled_all)
  have loop2: "forLoop 0 H (\<lambda>y. forLoop 0 W (\<lambda>x. receiveSample ?er))
      (0, waterLevel gb, ?p1) = (Inr (), (n2, map (dequantize ?er) ?k2, ?p2))"
    using receiveRows_ok [of H 0 W ?p1 ?k2 ?p2 0 "waterLevel gb" ?er]
      r2 sizes(2) lk2 unfolding m2 n2_def [symmetric] by (simp add: filled_all)
  have "2 * (n1 + n2) = 2 * n1 + 2 * n2" by simp
  hence tk: "take (2 * (n1 + n2)) (received p) =
      take (2 * n1) (received p) @ take (2 * n2) (drop (2 * n1) (received p))"
    by (simp only: take_add_drop)
  have ev: "even (length (take (2 * n1) (received p)))" using en by simp
  have codes: "wireCodes (swapOnRead p) (take (2 * (n1 + n2)) (received p)) = ?k1 @ ?k2"
    unfolding tk by (rule wireCodes_append [OF ev])
  have c1: "take n1 (?k1 @ ?k2) = ?k1" and c2: "drop n1 (?k1 @ ?k2) = ?k2"
    using lk1 by simp_all
  show ?thesis
    unfolding readGrids_def Let_def tb_def [symmetric] gb_def [symmetric] gs(1) fst_conv snd_conv
      p option.sel loop1 n1_def [symmetric] n2_def [symmetric] codes c1 c2
    by (simp add: loop2)
qed

section \<open>Lemmas on the broadcast\<close>

lemma deref_heap_cong: "heap s a = heap t a \<Longrightarrow> deref s a = deref t a"
  by (simp add: deref_def)

lemma disconnect_all:
  assumes "wellFormed s" "distinct ds" "set ds \<subseteq> set (clients s)"
  shows "wellFormed (fold (\<lambda>dc. disconnectClient dc True) ds s) \<and>
         set (clients (fold (\<lambda>dc. disconnectClient dc True) ds s)) = set (clients s) - set ds \<and>
         heap (fold (\<lambda>dc. disconnectClient dc True) ds s) =
           (\<lambda>a. if a \<in> set ds then None else heap s a) \<and>
         listeners (fold (\<lambda>dc. disconnectClient dc True) ds s) =
           listeners s - (\<lambda>a. listenerKey (deref s a)) ` set ds \<and>
         numClients (fold (\<lambda>dc. disconnectClient dc True) ds s) =
           numClients s - of_nat (length (filter (\<lambda>a. state (deref s a) = STREAMING) ds))"
  using assms
proof (induction ds arbitrary: s)
  case Nil
  then show ?case by simp
next
  case (Cons d ds)
  let ?s1 = "disconnectClient d True s"
  have d: "d \<in> set (clients s)" "d \<notin> set ds" "distinct ds" "set ds \<subseteq> set (clients s)"
    using Cons.prems by auto
  have dist: "distinct (clients s)" using Cons.prems(1) by (simp add: wellFormed_def)
  have w1: "wellFormed ?s1" by (rule wellFormed_disconnect [OF Cons.prems(1) d(1)])
  note cl = disconnectClient_clients [OF d(1) dist, where rl = True]
  note fl = disconnectClient_fields [OF d(1), where rl = True]
  have sub: "set ds \<subseteq> set (clients ?s1)" using d cl(1) by auto
  have same: "\<And>a. a \<in> set ds \<Longrightarrow> deref ?s1 a = deref s a"
    using d(2) by (metis deref_disconnect)
  note ih = Cons.IH [OF w1 d(3) sub]
  have f1: "filter (\<lambda>a. state (deref ?s1 a) = STREAMING) ds =
            filter (\<lambda>a. state (deref s a) = STREAMING) ds"
    by (rule filter_cong_set) (simp add: same)
  have i1: "(\<lambda>a. listenerKey (deref ?s1 a)) ` set ds = (\<lambda>a. listenerKey (deref s a)) ` set ds"
    by (rule image_cong) (simp_all add: same)
  have hp: "(\<lambda>a. if a \<in> set ds then None else heap ?s1 a) =
            (\<lambda>a. if a \<in> set (d # ds) then None else heap s a)"
    by (rule ext) (simp add: fl)
  have nm: "numClients ?s1 - of_nat (length (filter (\<lambda>a. state (deref s a) = STREAMING) ds)) =
      numClients s - of_nat (length (filter (\<lambda>a. state (deref s a) = STREAMING) (d # ds)))"
    by (simp add: fl)
  have ls: "listeners ?s1 - (\<lambda>a. listenerKey (deref s a)) ` set ds =
      listeners s - (\<lambda>a. listenerKey (deref s a)) ` set (d # ds)"
    by (auto simp add: fl)
  have cs: "set (clients ?s1) - set ds = set (clients s) - set (d # ds)"
    using cl(1) by auto
  show ?case
    using ih unfolding f1 i1 hp nm ls cs by simp
qed

subsection \<open>The state after the send loop\<close>

lemma sendGrids_keeps:
  assumes "sendGrids gs er gb p = (r, p')"
    and "1 \<le> fst gs" "1 \<le> snd gs"
    and "nat ((fst gs - 1) * (snd gs - 1)) \<le> length (bathymetry gb)"
    and "nat (fst gs * snd gs) \<le> length (waterLevel gb)"
  shows "r = Inr u \<Longrightarrow> sent p' = sent p @ snapshotBytes gs er gb"
  using assms(1) writeCodes_ok [of "snapshotCodes gs er gb" p u p']
  unfolding sendGrids_writeCodes [OF assms(2-5)]
  by (simp add: snapshotBytes_def)

lemma afterSend_fields:
  "clients (afterSend gb s) = clients s"
  "numClients (afterSend gb s) = numClients s"
  "listeners (afterSend gb s) = listeners s"
  "gridSize (afterSend gb s) = gridSize s"
  "elevationRange (afterSend gb s) = elevationRange s"
  by (simp_all add: afterSend_def)

lemma afterSend_deref:
  assumes "dom (heap s) = set (clients s)"
  shows "state (deref (afterSend gb s) a) = state (deref s a)"
    and "listenerKey (deref (afterSend gb s) a) = listenerKey (deref s a)"
    and "state (deref s a) = START \<Longrightarrow> a \<in> set (clients s) \<Longrightarrow>
         heap (afterSend gb s) a = heap s a"
    and "dom (heap (afterSend gb s)) = set (clients s)"
proof -
  show "state (deref (afterSend gb s) a) = state (deref s a)"
    "listenerKey (deref (afterSend gb s) a) = listenerKey (deref s a)"
    by (simp_all add: afterSend_def deref_def sentTo_def)
  show "state (deref s a) = START \<Longrightarrow> a \<in> set (clients s) \<Longrightarrow>
         heap (afterSend gb s) a = heap s a"
    by (simp add: afterSend_def)
  have "\<And>x. x \<in> dom (heap (afterSend gb s)) \<longleftrightarrow>
      (x \<in> set (clients s) \<and> state (deref s x) = STREAMING) \<or> x \<in> dom (heap s)"
    by (auto simp add: afterSend_def dom_def)
  thus "dom (heap (afterSend gb s)) = set (clients s)"
    using assms by blast
qed

lemma wellFormed_afterSend:
  assumes "wellFormed s"
  shows "wellFormed (afterSend gb s)"
proof -
  have dm: "dom (heap s) = set (clients s)" using assms by (simp add: wellFormed_def)
  have "streamingClients (afterSend gb s) = streamingClients s"
    by (simp add: streamingClients_def afterSend_fields afterSend_deref(1) [OF dm])
  moreover have "\<forall>a \<in> set (clients s). state (deref (afterSend gb s) a) = START \<longrightarrow>
      \<not> swapOnRead (clientPipe (deref (afterSend gb s) a))"
  proof (intro ballI impI)
    fix a assume a: "a \<in> set (clients s)" "state (deref (afterSend gb s) a) = START"
    hence st: "state (deref s a) = START" by (simp add: afterSend_deref(1) [OF dm])
    hence "deref (afterSend gb s) a = deref s a"
      using afterSend_deref(3) [OF dm st a(1)] by (simp add: deref_def)
    thus "\<not> swapOnRead (clientPipe (deref (afterSend gb s) a))"
      using assms a(1) st by (simp add: wellFormed_def)
  qed
  ultimately show ?thesis
    using assms afterSend_deref(4) [OF dm, of gb]
    by (simp add: wellFormed_def afterSend_fields)
qed

lemma broadcast_eq:
  assumes "wellFormed s"
  shows "broadcast gb s =
         fold (\<lambda>dc. disconnectClient dc True) (filter (throwsFor gb s) (clients s)) (afterSend gb s)"
proof -
  have "distinct (clients s)" using assms by (simp add: wellFormed_def)
  from sendToClients_result [OF this, of gb s "[]"]
  show ?thesis by (simp add: broadcast_def afterSend_def)
qed

lemma broadcast_facts:
  fixes gb :: GridBuffers and s :: RemoteServer
  defines "dead \<equiv> filter (throwsFor gb s) (clients s)"
  assumes "wellFormed s"
  shows "wellFormed (broadcast gb s)"
    and "set (clients (broadcast gb s)) = set (clients s) - set dead"
    and "heap (broadcast gb s) = (\<lambda>a. if a \<in> set dead then None else heap (afterSend gb s) a)"
    and "listeners (broadcast gb s) = listeners s - (\<lambda>a. listenerKey (deref s a)) ` set dead"
    and "numClients (broadcast gb s) = numClients s - of_nat (length dead)"
proof -
  have dm: "dom (heap s) = set (clients s)" and d: "distinct (clients s)"
    using assms(2) by (simp_all add: wellFormed_def)
  have w: "wellFormed (afterSend gb s)" by (rule wellFormed_afterSend [OF assms(2)])
  have dd: "distinct dead" using d by (simp add: dead_def)
  have sub: "set dead \<subseteq> set (clients (afterSend gb s))"
    by (auto simp add: dead_def afterSend_fields)
  note da = disconnect_all [OF w dd sub]
  have b: "broadcast gb s = fold (\<lambda>dc. disconnectClient dc True) dead (afterSend gb s)"
    unfolding dead_def by (rule broadcast_eq [OF assms(2)])
  have all: "filter (\<lambda>a. state (deref (afterSend gb s) a) = STREAMING) dead = dead"
    unfolding filter_id_conv
    by (simp add: dead_def afterSend_deref(1) [OF dm] throwsFor_def)
  show "wellFormed (broadcast gb s)" using da by (simp add: b)
  show "set (clients (broadcast gb s)) = set (clients s) - set dead"
    using da by (simp add: b afterSend_fields)
  show "heap (broadcast gb s) = (\<lambda>a. if a \<in> set dead then None else heap (afterSend gb s) a)"
    using da by (simp add: b)
  show "listeners (broadcast gb s) = listeners s - (\<lambda>a. listenerKey (deref s a)) ` set dead"
    using da by (simp add: b afterSend_fields afterSend_deref(2) [OF dm])
  show "numClients (broadcast gb s) = numClients s - of_nat (length dead)"
    using da unfolding all by (simp add: b afterSend_fields)
qed

lemma reachable_wellFormed: "reachable s \<Longrightarrow> wellFormed s"
proof (induction rule: reachable.induct)
  case (constructed tableSize tableCell domain listenKey)
  show ?case by (rule wellFormed_new)
next
  case (connection s a key f32 conn)
  then show ?case by (simp add: wellFormed_connection)
next
  case (message s client)
  then show ?case by (simp add: dispatchClientEvent_wellFormed)
next
  case (newGrids s gb)
  then show ?case by (simp add: broadcast_facts(1))
qed

section \<open>The protocol state machine of the server\<close>

lemma disconnect_after_store:
  assumes "client \<in> set (clients s)" "distinct (clients s)"
  shows "heap (disconnectClient client rl (store client c s)) = (heap s)(client := None)"
    and "set (clients (disconnectClient client rl (store client c s))) = set (clients s) - {client}"
    and "numClients (disconnectClient client rl (store client c s)) =
           (if state c = STREAMING then numClients s - 1 else numClients s)"
    and "listeners (disconnectClient client rl (store client c s)) =
           (if rl then listeners s - {listenerKey c} else listeners s)"
proof -
  have m: "client \<in> set (clients (store client c s))" using assms(1) by simp
  have d: "distinct (clients (store client c s))" using assms(2) by simp
  have dr: "deref (store client c s) client = c" by (simp add: store_def deref_def)
  show "heap (disconnectClient client rl (store client c s)) = (heap s)(client := None)"
    using disconnectClient_fields(1) [OF m] by (simp add: store_def)
  show "set (clients (disconnectClient client rl (store client c s))) = set (clients s) - {client}"
    using disconnectClient_clients(1) [OF m d] by simp
  show "numClients (disconnectClient client rl (store client c s)) =
           (if state c = STREAMING then numClients s - 1 else numClients s)"
    using disconnectClient_fields(2) [OF m] by (simp add: dr) (simp add: store_def)
  show "listeners (disconnectClient client rl (store client c s)) =
           (if rl then listeners s - {listenerKey c} else listeners s)"
    using disconnectClient_fields(3) [OF m] by (simp add: dr) (simp add: store_def)
qed

text \<open>
  C3. In a state that satisfies the invariant (every reachable state does, lemma
  \<open>reachable_wellFormed\<close>), for a client of the list in state START from whose pipe four
  bytes can be read:
  if they read as 0x12345678, the callback keeps the byte swap off, moves the client to
  STREAMING and increments the counter; if they read as 0x78563412, it turns the byte
  swap on, moves the client to STREAMING and increments the counter; for any other value
  it returns \<^verbatim>\<open>true\<close> (stop listening), deletes the client and takes it off the list, the
  other clients stay as they are, and the counter keeps its value.
\<close>

theorem endianness_handshake:
  assumes "wellFormed s" "client \<in> set (clients s)" "state (deref s client) = START"
    and "read_UInt32 (clientPipe (deref s client)) = (Inr token, p)"
  shows "(token = 0x12345678 \<longrightarrow>
            clientMessageCallback client s =
              (False, (store client ((deref s client)\<lparr>clientPipe := p, state := STREAMING\<rparr>) s)
                        \<lparr>numClients := numClients s + 1\<rparr>) \<and>
            \<not> swapOnRead p) \<and>
         (token = 0x78563412 \<longrightarrow>
            clientMessageCallback client s =
              (False, (store client ((deref s client)
                         \<lparr>clientPipe := p\<lparr>swapOnRead := True\<rparr>, state := STREAMING\<rparr>) s)
                        \<lparr>numClients := numClients s + 1\<rparr>)) \<and>
         (token \<noteq> 0x12345678 \<and> token \<noteq> 0x78563412 \<longrightarrow>
            fst (clientMessageCallback client s) \<and>
            heap (snd (clientMessageCallback client s)) = (heap s)(client := None) \<and>
            set (clients (snd (clientMessageCallback client s))) = set (clients s) - {client} \<and>
            numClients (snd (clientMessageCallback client s)) = numClients s)"
proof -
  let ?c = "deref s client"
  have d: "distinct (clients s)" using assms(1) by (simp add: wellFormed_def)
  have "\<not> swapOnRead (clientPipe ?c)"
    using assms(1-3) by (simp add: wellFormed_def)
  hence sw: "\<not> swapOnRead p" using read_UInt32_keeps [OF assms(4)] by simp
  have ok1: "token = 0x12345678 \<Longrightarrow> clientMessageCallback client s =
      (False, (store client (?c\<lparr>clientPipe := p, state := STREAMING\<rparr>) s)
                \<lparr>numClients := numClients s + 1\<rparr>)"
    by (simp add: clientMessageCallback_def handleSTART_def assms(3,4))
  have ok2: "token = 0x78563412 \<Longrightarrow> clientMessageCallback client s =
      (False, (store client (?c\<lparr>clientPipe := p\<lparr>swapOnRead := True\<rparr>, state := STREAMING\<rparr>) s)
                \<lparr>numClients := numClients s + 1\<rparr>)"
    by (simp add: clientMessageCallback_def handleSTART_def assms(3,4) setSwapOnRead_def)
  have bad: "clientMessageCallback client s =
      (True, disconnectClient client False (store client (?c\<lparr>clientPipe := p\<rparr>) s))"
    if "token \<noteq> 0x12345678" "token \<noteq> 0x78563412"
    using that by (simp add: clientMessageCallback_def handleSTART_def assms(3,4))
  note das = disconnect_after_store [OF assms(2) d, where rl = False and c = "?c\<lparr>clientPipe := p\<rparr>"]
  show ?thesis
    using ok1 ok2 sw bad das assms(3) by simp
qed

lemma read_Float32s_ok:
  assumes "received p = bs @ rest" "length bs = 4 * n"
  shows "read_Float32s n p =
         (Inr (map (hostValue (swapOnRead p)) (chunks4 bs)), p\<lparr>received := rest\<rparr>)"
  using assms by (simp add: read_Float32s_def readRaw_def)

lemma length_chunks4: "length bs = 4 * n \<Longrightarrow> length (chunks4 bs) = n"
proof (induction bs arbitrary: n rule: chunks4.induct)
  case (1 a b c d rest)
  then obtain m where "n = Suc m" by (cases n) auto
  with 1 show ?case by simp
qed auto

text \<open>
  C5. In a state that satisfies the invariant (every reachable state does), for a client
  of the list in state STREAMING from whose pipe a 16-bit tag can be read: with tag 0 and 24 more bytes at hand, the first twelve bytes become the three
  components of the position, the next twelve the three components of the direction, and
  nothing else changes; with any other tag the callback returns \<^verbatim>\<open>true\<close>, this client and
  no other is deleted and taken off the list, the counter goes down by one, and the
  dispatcher drops the client's listener.
\<close>

theorem streaming_message:
  assumes "wellFormed s" "client \<in> set (clients s)" "state (deref s client) = STREAMING"
    and "read_UInt16 (clientPipe (deref s client)) = (Inr token, p)"
  shows "(token = 0 \<and> received p = posBytes @ dirBytes @ rest \<and>
          length posBytes = 12 \<and> length dirBytes = 12 \<longrightarrow>
            clientMessageCallback client s =
              (False,
               store client ((deref s client)
                 \<lparr>clientPipe := p\<lparr>received := rest\<rparr>,
                  position := Some (map (hostValue (swapOnRead p)) (chunks4 posBytes)),
                  direction := Some (map (hostValue (swapOnRead p)) (chunks4 dirBytes))\<rparr>) s) \<and>
            length (chunks4 posBytes) = 3 \<and> length (chunks4 dirBytes) = 3) \<and>
         (token \<noteq> 0 \<longrightarrow>
            fst (clientMessageCallback client s) \<and>
            heap (snd (clientMessageCallback client s)) = (heap s)(client := None) \<and>
            set (clients (snd (clientMessageCallback client s))) = set (clients s) - {client} \<and>
            numClients (snd (clientMessageCallback client s)) = numClients s - 1 \<and>
            listeners (dispatchClientEvent client s) =
              listeners s - {listenerKey (deref s client)} \<and>
            heap (dispatchClientEvent client s) = (heap s)(client := None) \<and>
            set (clients (dispatchClientEvent client s)) = set (clients s) - {client})"
proof -
  let ?c = "deref s client"
  have d: "distinct (clients s)" using assms(1) by (simp add: wellFormed_def)
  have pose: "clientMessageCallback client s =
      (False,
       store client (?c\<lparr>clientPipe := p\<lparr>received := rest\<rparr>,
          position := Some (map (hostValue (swapOnRead p)) (chunks4 posBytes)),
          direction := Some (map (hostValue (swapOnRead p)) (chunks4 dirBytes))\<rparr>) s)"
    if "token = 0" "received p = posBytes @ dirBytes @ rest"
      "length posBytes = 12" "length dirBytes = 12"
  proof -
    have r1: "read_Float32s 3 p =
        (Inr (map (hostValue (swapOnRead p)) (chunks4 posBytes)), p\<lparr>received := dirBytes @ rest\<rparr>)"
      by (rule read_Float32s_ok) (use that in simp_all)
    have r2: "read_Float32s 3 (p\<lparr>received := dirBytes @ rest\<rparr>) =
        (Inr (map (hostValue (swapOnRead p)) (chunks4 dirBytes)), p\<lparr>received := rest\<rparr>)"
      using read_Float32s_ok [of "p\<lparr>received := dirBytes @ rest\<rparr>" dirBytes rest 3] that
      by simp
    show ?thesis
      using that(1)
      by (simp add: clientMessageCallback_def handleSTREAMING_def assms(3,4) r1 r2)
  qed
  have len: "length posBytes = 12 \<Longrightarrow> length (chunks4 posBytes) = 3"
    "length dirBytes = 12 \<Longrightarrow> length (chunks4 dirBytes) = 3"
    using length_chunks4 [of posBytes 3] length_chunks4 [of dirBytes 3] by simp_all
  have bad: "clientMessageCallback client s =
      (True, disconnectClient client False (store client (?c\<lparr>clientPipe := p\<rparr>) s))"
    if "token \<noteq> 0"
    using that
    by (simp add: clientMessageCallback_def handleSTREAMING_def assms(3,4) unat_eq_0)
  note das = disconnect_after_store [OF assms(2) d, where rl = False and c = "?c\<lparr>clientPipe := p\<rparr>"]
  have disp: "dispatchClientEvent client s =
      (disconnectClient client False (store client (?c\<lparr>clientPipe := p\<rparr>) s))
        \<lparr>listeners := listeners (disconnectClient client False
           (store client (?c\<lparr>clientPipe := p\<rparr>) s)) - {listenerKey ?c}\<rparr>"
    if "token \<noteq> 0"
    by (simp add: dispatchClientEvent_def bad [OF that])
  show ?thesis
    using pose len bad das disp assms(3) by simp
qed

lemma handleSTART_counter:
  assumes "state (deref s client) = START" "handleSTART client s = (r, s')"
  shows "clients s' = clients s"
    and "isl r \<Longrightarrow> numClients s' = numClients s \<and> state (deref s' client) = START"
    and "\<not> isl r \<Longrightarrow> numClients s' = numClients s + 1 \<and> state (deref s' client) = STREAMING"
  using assms
  by (auto simp add: handleSTART_def Let_def store_def deref_def
      split: prod.splits sum.splits if_splits)

lemma handleSTREAMING_counter:
  assumes "state (deref s client) = STREAMING" "handleSTREAMING client s = (r, s')"
  shows "clients s' = clients s" "numClients s' = numClients s"
    "state (deref s' client) = STREAMING"
  using assms
  by (auto simp add: handleSTREAMING_def Let_def store_def deref_def
      split: prod.splits sum.splits if_splits)

lemma clientMessageCallback_counter:
  assumes "client \<in> set (clients s)"
  shows "numClients (snd (clientMessageCallback client s)) =
           (if state (deref s client) = START \<and> \<not> fst (clientMessageCallback client s)
            then numClients s + 1
            else if state (deref s client) = STREAMING \<and> fst (clientMessageCallback client s)
            then numClients s - 1
            else numClients s)"
proof (cases "state (deref s client)")
  case START
  obtain r s' where h: "handleSTART client s = (r, s')" by (cases "handleSTART client s")
  note c = handleSTART_counter [OF START h]
  show ?thesis
  proof (cases r)
    case (Inl e)
    have m: "client \<in> set (clients s')" using assms c(1) by simp
    show ?thesis
      using START h Inl c(2) disconnectClient_fields(2) [OF m, of False]
      by (simp add: clientMessageCallback_def)
  next
    case (Inr u)
    then show ?thesis using START h c(3) by (simp add: clientMessageCallback_def)
  qed
next
  case STREAMING
  obtain r s' where h: "handleSTREAMING client s = (r, s')"
    by (cases "handleSTREAMING client s")
  note c = handleSTREAMING_counter [OF STREAMING h]
  show ?thesis
  proof (cases r)
    case (Inl e)
    have m: "client \<in> set (clients s')" using assms c(1) by simp
    show ?thesis
      using STREAMING h Inl c(2,3) disconnectClient_fields(2) [OF m, of False]
      by (simp add: clientMessageCallback_def)
  next
    case (Inr u)
    then show ?thesis using STREAMING h c(2) by (simp add: clientMessageCallback_def)
  qed
qed

lemma newConnectionCallback_counter:
  "numClients (snd (newConnectionCallback f32 a key conn s)) = numClients s"
  by (simp add: newConnectionCallback_def split: option.splits prod.splits sum.splits)

lemma length_streamingClients_le: "length (streamingClients s) \<le> length (clients s)"
  by (simp add: streamingClients_def)

lemma clientMessageCallback_passes:
  assumes "state (deref s client) = START"
  shows "\<not> fst (clientMessageCallback client s) \<longleftrightarrow>
           fst (read_UInt32 (clientPipe (deref s client))) \<in> {Inr 0x12345678, Inr 0x78563412}"
    and "\<not> fst (clientMessageCallback client s) \<Longrightarrow>
           state (deref (snd (clientMessageCallback client s)) client) = STREAMING"
proof -
  obtain r p where rd: "read_UInt32 (clientPipe (deref s client)) = (r, p)"
    by (cases "read_UInt32 (clientPipe (deref s client))")
  show "\<not> fst (clientMessageCallback client s) \<longleftrightarrow>
           fst (read_UInt32 (clientPipe (deref s client))) \<in> {Inr 0x12345678, Inr 0x78563412}"
    by (cases r) (auto simp add: clientMessageCallback_def handleSTART_def Let_def assms rd)
  show "state (deref (snd (clientMessageCallback client s)) client) = STREAMING"
    if "\<not> fst (clientMessageCallback client s)"
  proof -
    obtain x s' where h: "handleSTART client s = (x, s')" by (cases "handleSTART client s")
    have "\<not> isl x" using that by (cases x) (simp_all add: clientMessageCallback_def assms h)
    moreover from this have "snd (clientMessageCallback client s) = s'"
      by (cases x) (simp_all add: clientMessageCallback_def assms h)
    ultimately show ?thesis using handleSTART_counter(3) [OF assms h] by simp
  qed
qed

text \<open>
  C7. In every reachable state \<open>numClients\<close> is the number of listed clients in state
  STREAMING (as a 32-bit unsigned number, and exactly so while the list has fewer than
  \<open>2^32\<close> entries). A connection attempt leaves it unchanged; a client message increments
  it exactly when a START client passes the endianness check (the token read is one of
  the two accepted values; the client is then STREAMING) and decrements it exactly when a
  STREAMING client is disconnected; \<open>disconnectClient\<close> on a listed client
  decrements it if and only if the client was STREAMING; a broadcast lowers it by the
  number of clients whose send failed.
\<close>

theorem numClients_counts_streaming:
  assumes "reachable s"
  shows "numClients s = of_nat (length (streamingClients s)) \<and>
         (length (clients s) < 2 ^ 32 \<longrightarrow> unat (numClients s) = length (streamingClients s)) \<and>
         numClients (snd (newConnectionCallback f32 a key conn s)) = numClients s \<and>
         (client \<in> set (clients s) \<longrightarrow>
            numClients (snd (clientMessageCallback client s)) =
              (if state (deref s client) = START \<and> \<not> fst (clientMessageCallback client s)
               then numClients s + 1
               else if state (deref s client) = STREAMING \<and> fst (clientMessageCallback client s)
               then numClients s - 1
               else numClients s) \<and>
            (state (deref s client) = START \<longrightarrow>
               (\<not> fst (clientMessageCallback client s) \<longleftrightarrow>
                  fst (read_UInt32 (clientPipe (deref s client)))
                    \<in> {Inr 0x12345678, Inr 0x78563412}) \<and>
               (\<not> fst (clientMessageCallback client s) \<longrightarrow>
                  state (deref (snd (clientMessageCallback client s)) client) = STREAMING)) \<and>
            numClients (disconnectClient client removeListener s) =
              (if state (deref s client) = STREAMING then numClients s - 1 else numClients s)) \<and>
         numClients (broadcast gb s) = numClients s - of_nat (length (failingClients gb s))"
proof -
  have w: "wellFormed s" by (rule reachable_wellFormed [OF assms])
  hence n: "numClients s = of_nat (length (streamingClients s))" by (simp add: wellFormed_def)
  have u: "unat (numClients s) = length (streamingClients s)" if "length (clients s) < 2 ^ 32"
  proof -
    have "length (streamingClients s) < 2 ^ 32"
      using that length_streamingClients_le [of s] by simp
    thus ?thesis unfolding n by (simp add: unat_of_nat)
  qed
  have cb: "numClients (snd (clientMessageCallback client s)) =
              (if state (deref s client) = START \<and> \<not> fst (clientMessageCallback client s)
               then numClients s + 1
               else if state (deref s client) = STREAMING \<and> fst (clientMessageCallback client s)
               then numClients s - 1
               else numClients s)" if "client \<in> set (clients s)"
    by (rule clientMessageCallback_counter [OF that])
  have dc: "numClients (disconnectClient client removeListener s) =
              (if state (deref s client) = STREAMING then numClients s - 1 else numClients s)"
    if "client \<in> set (clients s)"
    by (rule disconnectClient_fields(2) [OF that])
  have bc: "numClients (broadcast gb s) = numClients s - of_nat (length (failingClients gb s))"
    using broadcast_facts(5) [OF w] by (simp add: failingClients_def)
  show ?thesis
    using n u newConnectionCallback_counter [of f32 a key conn s] cb dc bc
      clientMessageCallback_passes [of s client]
    by blast
qed

text \<open>
  C6. One broadcast of a pair of grids of the negotiated size, in a state that satisfies
  the invariant (every reachable state does): exactly the clients whose
  send threw are taken off the list, deleted, and their listeners removed; every other
  client keeps its state, every other STREAMING client has the complete snapshot message
  appended to what was sent to it, and clients in state START are untouched.
\<close>

theorem broadcast_isolation:
  assumes "wellFormed s"
    and "1 \<le> fst (gridSize s)" "1 \<le> snd (gridSize s)"
    and "nat ((fst (gridSize s) - 1) * (snd (gridSize s) - 1)) \<le> length (bathymetry gb)"
    and "nat (fst (gridSize s) * snd (gridSize s)) \<le> length (waterLevel gb)"
  shows "set (clients (broadcast gb s)) = set (clients s) - set (failingClients gb s) \<and>
         (\<forall>a \<in> set (failingClients gb s).
            heap (broadcast gb s) a = None \<and>
            listenerKey (deref s a) \<notin> listeners (broadcast gb s)) \<and>
         (\<forall>a \<in> set (clients s) - set (failingClients gb s).
            state (deref (broadcast gb s) a) = state (deref s a) \<and>
            (state (deref s a) = STREAMING \<longrightarrow>
               sent (clientPipe (deref (broadcast gb s) a)) =
                 sent (clientPipe (deref s a)) @ snapshotBytes (gridSize s) (elevationRange s) gb) \<and>
            (state (deref s a) = START \<longrightarrow> heap (broadcast gb s) a = heap s a))"
proof -
  have dm: "dom (heap s) = set (clients s)" using assms(1) by (simp add: wellFormed_def)
  note bf = broadcast_facts [OF assms(1), of gb, folded failingClients_def]
  have dead: "\<forall>a \<in> set (failingClients gb s).
            heap (broadcast gb s) a = None \<and>
            listenerKey (deref s a) \<notin> listeners (broadcast gb s)"
    by (auto simp add: bf(3,4))
  have live: "state (deref (broadcast gb s) a) = state (deref s a) \<and>
            (state (deref s a) = STREAMING \<longrightarrow>
               sent (clientPipe (deref (broadcast gb s) a)) =
                 sent (clientPipe (deref s a)) @ snapshotBytes (gridSize s) (elevationRange s) gb) \<and>
            (state (deref s a) = START \<longrightarrow> heap (broadcast gb s) a = heap s a)"
    if a: "a \<in> set (clients s)" "a \<notin> set (failingClients gb s)" for a
  proof -
    have h: "heap (broadcast gb s) a = heap (afterSend gb s) a"
      using a(2) by (simp add: bf(3))
    hence dr: "deref (broadcast gb s) a = deref (afterSend gb s) a"
      by (rule deref_heap_cong)
    have st: "state (deref (broadcast gb s) a) = state (deref s a)"
      by (simp add: dr afterSend_deref(1) [OF dm])
    have start: "heap (broadcast gb s) a = heap s a" if "state (deref s a) = START"
      using afterSend_deref(3) [OF dm that a(1)] h by simp
    have msg: "sent (clientPipe (deref (broadcast gb s) a)) =
        sent (clientPipe (deref s a)) @ snapshotBytes (gridSize s) (elevationRange s) gb"
      if s: "state (deref s a) = STREAMING"
    proof -
      obtain r p where sg: "sendGrids (gridSize s) (elevationRange s) gb (clientPipe (deref s a))
          = (r, p)"
        by (cases "sendGrids (gridSize s) (elevationRange s) gb (clientPipe (deref s a))")
      have "\<not> throwsFor gb s a" using a by (simp add: failingClients_def)
      hence "\<not> isl r" using s sg by (simp add: throwsFor_def)
      then obtain u where r: "r = Inr u" by (cases r) auto
      have "deref (afterSend gb s) a = sentTo gb s a"
        using a(1) s by (simp add: afterSend_def deref_def)
      hence "clientPipe (deref (broadcast gb s) a) = p"
        using sg by (simp add: dr sentTo_def)
      thus ?thesis using sendGrids_keeps [OF sg assms(2-5) r] by simp
    qed
    show ?thesis using st start msg by simp
  qed
  show ?thesis using bf(2) dead live by simp
qed

section \<open>The theorems on concrete states\<close>

lemma example_deref:
  "deref exampleServer 7 = exampleClient [0x78, 0x56, 0x34, 0x12] None 1 START"
  "deref exampleServer 8 = exampleClient [0x12, 0x34, 0x56, 0x78] None 2 START"
  "deref exampleServer 9 = exampleClient [1, 2, 3, 4] None 3 START"
  "deref exampleServer 10 = exampleClient poseMessage None 4 STREAMING"
  "deref exampleServer 11 = exampleClient [5, 0] (Some 3) 5 STREAMING"
  by (simp_all add: deref_def exampleServer_def)

lemma example_fields:
  "clients exampleServer = [7, 8, 9, 10, 11]" "numClients exampleServer = 2"
  "dom (heap exampleServer) = {7, 8, 9, 10, 11}"
  "gridSize exampleServer = (2, 2)" "elevationRange exampleServer = (0, 1)"
  "listeners exampleServer = {0, 1, 2, 3, 4, 5}"
  by (auto simp add: exampleServer_def)

lemma example_wellFormed: "wellFormed exampleServer"
  unfolding wellFormed_def streamingClients_def
  by (simp add: example_fields example_deref exampleClient_def TCPPipe_new_def)

lemma greeted_eval:
  "clients greetedServer = [7]" "numClients greetedServer = 0"
  "state (deref greetedServer 7) = START"
  "received (clientPipe (deref greetedServer 7)) = [0x78, 0x56, 0x34, 0x12]"
  "swapOnRead (clientPipe (deref greetedServer 7)) = False"
  by (simp_all add: greetedServer_def newConnectionCallback_def sendGreeting_def thenDo_def
      write_UInt32_def write_Float32_def writeRaw_def flush_def TCPPipe_new_def
      RemoteServer_new_def Let_def deref_def)

lemma greeted_read:
  "read_UInt32 (clientPipe (deref greetedServer 7)) =
     (Inr 0x12345678, (clientPipe (deref greetedServer 7))\<lparr>received := []\<rparr>)"
  by (simp add: read_UInt32_def readRaw_def greeted_eval hostValue_def word_rcat_def)

lemma streaming_callback:
  "clientMessageCallback 7 greetedServer =
     (False,
      (store 7 ((deref greetedServer 7)
         \<lparr>clientPipe := (clientPipe (deref greetedServer 7))\<lparr>received := []\<rparr>,
          state := STREAMING\<rparr>) greetedServer)\<lparr>numClients := numClients greetedServer + 1\<rparr>)"
  by (simp add: clientMessageCallback_def handleSTART_def Let_def greeted_eval greeted_read)

lemma streaming_eval:
  "clients streamingServer = [7]" "numClients streamingServer = 1"
  "state (deref streamingServer 7) = STREAMING"
  unfolding streamingServer_def dispatchClientEvent_def Let_def streaming_callback
  by (simp_all add: greeted_eval) (simp add: store_def deref_def)

lemma streaming_reachable: "reachable streamingServer"
proof -
  have c1: "7 \<notin> dom (heap (RemoteServer_new (2, 2) (1, 1) (0, 1) 0))"
    by (simp add: RemoteServer_new_def Let_def)
  have c2: "1 \<notin> listeners (RemoteServer_new (2, 2) (1, 1) (0, 1) 0)"
    by (simp add: RemoteServer_new_def Let_def)
  have c3: "7 \<in> set (clients greetedServer)" by (simp add: greeted_eval)
  show ?thesis
    unfolding streamingServer_def
    by (rule reachable.message [OF _ c3], unfold greetedServer_def)
      (rule reachable.connection [OF reachable.constructed c1 c2])
qed

theorem numClients_counts_streaming_witness:
  "reachable streamingServer \<and>
   streamingClients streamingServer = [7] \<and>
   numClients streamingServer = of_nat (length (streamingClients streamingServer)) \<and>
   unat (numClients streamingServer) = length (streamingClients streamingServer) \<and>
   numClients (snd (clientMessageCallback 7 greetedServer)) = numClients greetedServer + 1"
proof -
  have g: "reachable greetedServer"
    unfolding greetedServer_def
    by (rule reachable.connection [OF reachable.constructed])
      (simp_all add: RemoteServer_new_def Let_def)
  have sc: "streamingClients streamingServer = [7]"
    by (simp add: streamingClients_def streaming_eval)
  show ?thesis
    using numClients_counts_streaming [OF streaming_reachable]
      numClients_counts_streaming [OF g, of _ _ _ _ 7]
    by (simp add: streaming_reachable sc streaming_eval greeted_eval streaming_callback)
qed

lemma example_tokens:
  "read_UInt32 (clientPipe (deref exampleServer 7)) = (Inr 0x12345678, TCPPipe_new [] None)"
  "read_UInt32 (clientPipe (deref exampleServer 8)) = (Inr 0x78563412, TCPPipe_new [] None)"
  "read_UInt32 (clientPipe (deref exampleServer 9)) = (Inr 0x04030201, TCPPipe_new [] None)"
  by (simp_all add: example_deref exampleClient_def TCPPipe_new_def read_UInt32_def readRaw_def
      hostValue_def word_rcat_def)

theorem endianness_handshake_witness:
  "(clientMessageCallback 7 exampleServer =
      (False, (store 7 ((deref exampleServer 7)
                 \<lparr>clientPipe := TCPPipe_new [] None, state := STREAMING\<rparr>) exampleServer)
                \<lparr>numClients := numClients exampleServer + 1\<rparr>) \<and>
    \<not> swapOnRead (TCPPipe_new [] None)) \<and>
   clientMessageCallback 8 exampleServer =
      (False, (store 8 ((deref exampleServer 8)
                 \<lparr>clientPipe := (TCPPipe_new [] None)\<lparr>swapOnRead := True\<rparr>,
                  state := STREAMING\<rparr>) exampleServer)
                \<lparr>numClients := numClients exampleServer + 1\<rparr>) \<and>
   fst (clientMessageCallback 9 exampleServer) \<and>
   heap (snd (clientMessageCallback 9 exampleServer)) = (heap exampleServer)(9 := None) \<and>
   set (clients (snd (clientMessageCallback 9 exampleServer))) = {7, 8, 10, 11} \<and>
   numClients (snd (clientMessageCallback 9 exampleServer)) = 2"
proof -
  have st: "state (deref exampleServer 7) = START" "state (deref exampleServer 8) = START"
    "state (deref exampleServer 9) = START"
    by (simp_all add: example_deref exampleClient_def)
  have m: "7 \<in> set (clients exampleServer)" "8 \<in> set (clients exampleServer)"
    "9 \<in> set (clients exampleServer)"
    by (simp_all add: example_fields)
  note h7 = endianness_handshake [OF example_wellFormed m(1) st(1) example_tokens(1)]
  note h8 = endianness_handshake [OF example_wellFormed m(2) st(2) example_tokens(2)]
  note h9 = endianness_handshake [OF example_wellFormed m(3) st(3) example_tokens(3)]
  have c7: "clientMessageCallback 7 exampleServer =
      (False, (store 7 ((deref exampleServer 7)
                 \<lparr>clientPipe := TCPPipe_new [] None, state := STREAMING\<rparr>) exampleServer)
                \<lparr>numClients := numClients exampleServer + 1\<rparr>) \<and>
    \<not> swapOnRead (TCPPipe_new [] None)"
    using h7 [THEN conjunct1] by simp
  have c8: "clientMessageCallback 8 exampleServer =
      (False, (store 8 ((deref exampleServer 8)
                 \<lparr>clientPipe := (TCPPipe_new [] None)\<lparr>swapOnRead := True\<rparr>,
                  state := STREAMING\<rparr>) exampleServer)
                \<lparr>numClients := numClients exampleServer + 1\<rparr>)"
    using h8 [THEN conjunct2, THEN conjunct1] by simp
  have c9: "fst (clientMessageCallback 9 exampleServer) \<and>
      heap (snd (clientMessageCallback 9 exampleServer)) = (heap exampleServer)(9 := None) \<and>
      set (clients (snd (clientMessageCallback 9 exampleServer))) =
        set (clients exampleServer) - {9} \<and>
      numClients (snd (clientMessageCallback 9 exampleServer)) = numClients exampleServer"
    using h9 [THEN conjunct2, THEN conjunct2] by simp
  have s9: "set (clients exampleServer) - {9} = {7, 8, 10, 11}"
    by (auto simp add: example_fields)
  show ?thesis
    using c7 c8 c9 unfolding s9 example_fields(2) by blast
qed

lemma example_tags:
  "read_UInt16 (clientPipe (deref exampleServer 10)) = (Inr 0, TCPPipe_new (drop 2 poseMessage) None)"
  "read_UInt16 (clientPipe (deref exampleServer 11)) = (Inr 5, TCPPipe_new [] (Some 3))"
  by (simp_all add: example_deref exampleClient_def TCPPipe_new_def read_UInt16_def readRaw_def
      hostValue_def word_rcat_def poseMessage_def)

theorem streaming_message_witness:
  "clientMessageCallback 10 exampleServer =
     (False,
      store 10 ((deref exampleServer 10)
        \<lparr>clientPipe := TCPPipe_new [] None,
         position := Some [0x3F800000, 0x40000000, 0x40400000],
         direction := Some [0, 0, 0xBF800000]\<rparr>) exampleServer) \<and>
   fst (clientMessageCallback 11 exampleServer) \<and>
   heap (snd (clientMessageCallback 11 exampleServer)) = (heap exampleServer)(11 := None) \<and>
   set (clients (snd (clientMessageCallback 11 exampleServer))) = {7, 8, 9, 10} \<and>
   numClients (snd (clientMessageCallback 11 exampleServer)) = 1 \<and>
   listeners (dispatchClientEvent 11 exampleServer) = {0, 1, 2, 3, 4}"
proof -
  have st: "state (deref exampleServer 10) = STREAMING" "state (deref exampleServer 11) = STREAMING"
    by (simp_all add: example_deref exampleClient_def)
  have m: "10 \<in> set (clients exampleServer)" "11 \<in> set (clients exampleServer)"
    by (simp_all add: example_fields)
  have bytes: "received (TCPPipe_new (drop 2 poseMessage) None) =
      [0, 0, 0x80, 0x3F,  0, 0, 0, 0x40,  0, 0, 0x40, 0x40] @
      [0, 0, 0, 0,  0, 0, 0, 0,  0, 0, 0x80, 0xBF] @ []"
    by (simp add: TCPPipe_new_def poseMessage_def)
  have key: "listenerKey (deref exampleServer 11) = 5"
    by (simp add: example_deref exampleClient_def)
  have vals:
    "map (hostValue False) (chunks4 [0, 0, 0x80, 0x3F,  0, 0, 0, 0x40,  0, 0, 0x40, 0x40]) =
       [0x3F800000, 0x40000000, 0x40400000 :: Float32]"
    "map (hostValue False) (chunks4 [0, 0, 0, 0,  0, 0, 0, 0,  0, 0, 0x80, 0xBF]) =
       [0, 0, 0xBF800000 :: Float32]"
    by (simp_all add: hostValue_def word_rcat_def)
  note h10 = streaming_message [OF example_wellFormed m(1) st(1) example_tags(1),
        of "[0, 0, 0x80, 0x3F,  0, 0, 0, 0x40,  0, 0, 0x40, 0x40]"
           "[0, 0, 0, 0,  0, 0, 0, 0,  0, 0, 0x80, 0xBF]" "[]"]
  note h11 = streaming_message [OF example_wellFormed m(2) st(2) example_tags(2)]
  have sw: "swapOnRead (TCPPipe_new (drop 2 poseMessage) None) = False"
    "(TCPPipe_new (drop 2 poseMessage) None)\<lparr>received := []\<rparr> = TCPPipe_new [] None"
    by (simp_all add: TCPPipe_new_def)
  have c10: "clientMessageCallback 10 exampleServer =
     (False,
      store 10 ((deref exampleServer 10)
        \<lparr>clientPipe := TCPPipe_new [] None,
         position := Some [0x3F800000, 0x40000000, 0x40400000],
         direction := Some [0, 0, 0xBF800000]\<rparr>) exampleServer)"
    using h10 [THEN conjunct1] bytes unfolding sw vals by simp
  have c11: "fst (clientMessageCallback 11 exampleServer) \<and>
      heap (snd (clientMessageCallback 11 exampleServer)) = (heap exampleServer)(11 := None) \<and>
      set (clients (snd (clientMessageCallback 11 exampleServer))) =
        set (clients exampleServer) - {11} \<and>
      numClients (snd (clientMessageCallback 11 exampleServer)) = numClients exampleServer - 1 \<and>
      listeners (dispatchClientEvent 11 exampleServer) =
        listeners exampleServer - {listenerKey (deref exampleServer 11)}"
    using h11 [THEN conjunct2] by simp
  have s11: "set (clients exampleServer) - {11} = {7, 8, 9, 10}"
    "listeners exampleServer - {listenerKey (deref exampleServer 11)} = {0, 1, 2, 3, 4}"
    "numClients exampleServer - 1 = 1"
    by (auto simp add: example_fields key)
  show ?thesis
    using c10 c11 unfolding s11 by blast
qed

lemma example_grid_sizes:
  "1 \<le> fst (gridSize exampleServer)" "1 \<le> snd (gridSize exampleServer)"
  "nat ((fst (gridSize exampleServer) - 1) * (snd (gridSize exampleServer) - 1))
     \<le> length (bathymetry exampleGrids)"
  "nat (fst (gridSize exampleServer) * snd (gridSize exampleServer))
     \<le> length (waterLevel exampleGrids)"
  by (simp_all add: example_fields exampleGrids_def)

lemma example_codes: "length (snapshotCodes (2, 2) (0, 1) exampleGrids) = 5"
  by (simp add: snapshotCodes_def exampleGrids_def)

lemma example_throws:
  "\<not> throwsFor exampleGrids exampleServer 7" "\<not> throwsFor exampleGrids exampleServer 8"
  "\<not> throwsFor exampleGrids exampleServer 9" "\<not> throwsFor exampleGrids exampleServer 10"
  "throwsFor exampleGrids exampleServer 11"
proof -
  show "\<not> throwsFor exampleGrids exampleServer 7" "\<not> throwsFor exampleGrids exampleServer 8"
    "\<not> throwsFor exampleGrids exampleServer 9"
    by (simp_all add: throwsFor_def example_deref exampleClient_def)
  note sg = sendGrids_writeCodes [OF example_grid_sizes, unfolded example_fields]
  have "writable (clientPipe (deref exampleServer 10)) = None"
    by (simp add: example_deref exampleClient_def TCPPipe_new_def)
  hence "\<not> isl (fst (writeCodes (snapshotCodes (2, 2) (0, 1) exampleGrids)
      (clientPipe (deref exampleServer 10))))"
    by (simp add: writeCodes_fails_iff)
  thus "\<not> throwsFor exampleGrids exampleServer 10"
    by (simp add: throwsFor_def example_fields sg)
  have "writable (clientPipe (deref exampleServer 11)) = Some 3"
    by (simp add: example_deref exampleClient_def TCPPipe_new_def)
  hence "isl (fst (writeCodes (snapshotCodes (2, 2) (0, 1) exampleGrids)
      (clientPipe (deref exampleServer 11))))"
    by (simp add: writeCodes_fails_iff example_codes)
  thus "throwsFor exampleGrids exampleServer 11"
    by (simp add: throwsFor_def example_fields sg example_deref exampleClient_def)
qed

lemma example_failing: "failingClients exampleGrids exampleServer = [11]"
  by (simp add: failingClients_def example_fields(1) example_throws)

theorem broadcast_isolation_witness:
  "set (clients (broadcast exampleGrids exampleServer)) = {7, 8, 9, 10} \<and>
   heap (broadcast exampleGrids exampleServer) 11 = None \<and>
   listenerKey (deref exampleServer 11) \<notin> listeners (broadcast exampleGrids exampleServer) \<and>
   state (deref (broadcast exampleGrids exampleServer) 10) = STREAMING \<and>
   sent (clientPipe (deref (broadcast exampleGrids exampleServer) 10)) =
     sent (clientPipe (deref exampleServer 10)) @ snapshotBytes (2, 2) (0, 1) exampleGrids \<and>
   heap (broadcast exampleGrids exampleServer) 7 = heap exampleServer 7"
proof -
  note h = broadcast_isolation [OF example_wellFormed example_grid_sizes]
  have s: "set (clients exampleServer) - set (failingClients exampleGrids exampleServer) =
      {7, 8, 9, 10}"
    by (auto simp add: example_fields example_failing)
  have st: "state (deref exampleServer 10) = STREAMING" "state (deref exampleServer 7) = START"
    by (simp_all add: example_deref exampleClient_def)
  have c1: "set (clients (broadcast exampleGrids exampleServer)) = {7, 8, 9, 10}"
    using h [THEN conjunct1] unfolding s .
  have c2: "heap (broadcast exampleGrids exampleServer) 11 = None \<and>
      listenerKey (deref exampleServer 11) \<notin> listeners (broadcast exampleGrids exampleServer)"
    using h [THEN conjunct2, THEN conjunct1] by (simp add: example_failing)
  note live = h [THEN conjunct2, THEN conjunct2, unfolded s, rule_format]
  have c3: "state (deref (broadcast exampleGrids exampleServer) 10) = STREAMING \<and>
      sent (clientPipe (deref (broadcast exampleGrids exampleServer) 10)) =
        sent (clientPipe (deref exampleServer 10)) @ snapshotBytes (2, 2) (0, 1) exampleGrids"
    using live [of 10] st(1) by (simp add: example_fields)
  have c4: "heap (broadcast exampleGrids exampleServer) 7 = heap exampleServer 7"
    using live [of 7] st(2) by simp
  show ?thesis using c1 c2 c3 c4 by blast
qed

section \<open>The snapshot message and the quantization formulas\<close>

lemma bit_word_rcat:
  "bit (word_rcat ws :: 'b::len word) n \<longleftrightarrow>
     n < LENGTH('b) \<and> n div LENGTH('a) < length ws \<and> bit (rev ws ! (n div LENGTH('a))) (n mod LENGTH('a))"
  for ws :: "'a::len word list"
  by (simp add: word_rcat_def bit_word_of_int_iff bit_horner_sum_uint_exp_iff)

lemma word_rcat_bytes16: "(word_rcat [ucast (drop_bit 8 w), ucast w :: byte] :: 16 word) = w"
proof (rule bit_word_eqI)
  fix n assume n: "n < LENGTH(16)"
  show "bit (word_rcat [ucast (drop_bit 8 w), ucast w :: byte] :: 16 word) n = bit w n"
  proof (cases "n < 8")
    case True
    then show ?thesis using n
      by (simp add: bit_word_rcat bit_simps)
  next
    case False
    then have d: "n div 8 = 1" "n mod 8 = n - 8" using n by (simp_all add: div_nat_eqI mod_if le_mod_geq)
    show ?thesis using n False
      by (auto simp add: bit_word_rcat d bit_simps)
  qed
qed

lemma hostValue_hostBytes16: "hostValue False (hostBytes16 w) = w"
  by (simp add: hostValue_def hostBytes16_def word_rcat_bytes16)

lemma wireCodes_hostBytes16:
  "wireCodes False (concat (map hostBytes16 ks) @ rest) = ks @ wireCodes False rest"
proof (induction ks)
  case Nil
  then show ?case by simp
next
  case (Cons k ks)
  have "hostValue False [ucast k, ucast (drop_bit 8 k)] = k"
    using hostValue_hostBytes16 [of k] by (simp add: hostBytes16_def)
  then show ?case using Cons by (simp add: hostBytes16_def)
qed

lemma length_code_bytes: "length (concat (map hostBytes16 ks)) = 2 * length ks"
  by (induction ks) (simp_all add: hostBytes16_def)

lemma snapshotCodes_exact:
  assumes "length (bathymetry gb) = nat ((fst gs - 1) * (snd gs - 1))"
    and "length (waterLevel gb) = nat (fst gs * snd gs)"
  shows "snapshotCodes gs er gb =
         map (quantize er) (bathymetry gb) @ map (quantize er) (waterLevel gb)"
  using assms by (simp add: snapshotCodes_def)

text \<open>
  C4. For a grid of width \<open>W \<ge> 1\<close> and height \<open>H \<ge> 1\<close>: the server's message is the
  \<open>(W-1)(H-1)\<close> bathymetry codes in array order followed by the \<open>W H\<close> water level codes
  in array order, two bytes each and nothing else, \<open>2 ((W-1)(H-1) + W H)\<close> bytes in all;
  on a connection that carries them all the bytes are appended to what was sent. The
  client, given at least that many bytes, reads exactly that many: the first
  \<open>(W-1)(H-1)\<close> codes fill the bathymetry grid and the next \<open>W H\<close> codes the water level
  grid of the slot it posts; and when the bytes are the server's message read without
  byte swap, the codes it reads are the codes the server wrote.
\<close>

theorem snapshot_message_layout:
  fixes c :: SandboxClient
  defines "tb \<equiv> startNewValue (grids c)"
  defines "slot \<equiv> buffer tb ! nextIndex tb"
  assumes "1 \<le> W" "1 \<le> H"
    and "length (bathymetry gb) = nat ((W - 1) * (H - 1))"
    and "length (waterLevel gb) = nat (W * H)"
    and "sc_gridSize c = (W, H)" "pipe c = Some q"
    and "length (bathymetry slot) = nat ((W - 1) * (H - 1))"
    and "length (waterLevel slot) = nat (W * H)"
    and "2 * (nat ((W - 1) * (H - 1)) + nat (W * H)) \<le> length (received q)"
  shows "snapshotCodes (W, H) er gb =
           map (quantize er) (bathymetry gb) @ map (quantize er) (waterLevel gb) \<and>
         length (snapshotCodes (W, H) er gb) = nat ((W - 1) * (H - 1) + W * H) \<and>
         length (snapshotBytes (W, H) er gb) = 2 * nat ((W - 1) * (H - 1) + W * H) \<and>
         sendGrids (W, H) er gb p = writeCodes (snapshotCodes (W, H) er gb) p \<and>
         (writable p = None \<longrightarrow>
            sendGrids (W, H) er gb p =
              (Inr (), p\<lparr>sent := sent p @ snapshotBytes (W, H) er gb\<rparr>)) \<and>
         readGrids c =
           (Inr (),
            c\<lparr>pipe := Some (q\<lparr>received :=
                   drop (2 * (nat ((W - 1) * (H - 1)) + nat (W * H))) (received q)\<rparr>),
              grids := postNewValue (tb\<lparr>buffer := (buffer tb)[nextIndex tb :=
                slot\<lparr>bathymetry := map (dequantize (sc_elevationRange c))
                      (take (nat ((W - 1) * (H - 1)))
                        (wireCodes (swapOnRead q)
                          (take (2 * (nat ((W - 1) * (H - 1)) + nat (W * H))) (received q)))),
                   waterLevel := map (dequantize (sc_elevationRange c))
                      (drop (nat ((W - 1) * (H - 1)))
                        (wireCodes (swapOnRead q)
                          (take (2 * (nat ((W - 1) * (H - 1)) + nat (W * H)))
                            (received q))))\<rparr>]\<rparr>)\<rparr>) \<and>
         (received q = snapshotBytes (W, H) er gb @ rest \<and> \<not> swapOnRead q \<longrightarrow>
            wireCodes (swapOnRead q)
              (take (2 * (nat ((W - 1) * (H - 1)) + nat (W * H))) (received q)) =
              snapshotCodes (W, H) er gb \<and>
            drop (2 * (nat ((W - 1) * (H - 1)) + nat (W * H))) (received q) = rest)"
proof -
  have sz: "1 \<le> fst (W, H)" "1 \<le> snd (W, H)"
    "nat ((fst (W, H) - 1) * (snd (W, H) - 1)) \<le> length (bathymetry gb)"
    "nat (fst (W, H) * snd (W, H)) \<le> length (waterLevel gb)"
    using assms by simp_all
  have n: "nat ((W - 1) * (H - 1)) + nat (W * H) = nat ((W - 1) * (H - 1) + W * H)"
    using assms(3,4) by (simp add: nat_add_distrib)
  have codes: "snapshotCodes (W, H) er gb =
      map (quantize er) (bathymetry gb) @ map (quantize er) (waterLevel gb)"
    by (rule snapshotCodes_exact) (use assms in simp_all)
  have lc: "length (snapshotCodes (W, H) er gb) = nat ((W - 1) * (H - 1) + W * H)"
    using length_snapshotBytes(1) [OF sz] by simp
  have lb: "length (snapshotBytes (W, H) er gb) = 2 * nat ((W - 1) * (H - 1) + W * H)"
    using length_snapshotBytes(2) [OF sz] lc by simp
  have send: "sendGrids (W, H) er gb p = writeCodes (snapshotCodes (W, H) er gb) p"
    by (rule sendGrids_writeCodes [OF sz])
  have sendall: "sendGrids (W, H) er gb p =
      (Inr (), p\<lparr>sent := sent p @ snapshotBytes (W, H) er gb\<rparr>)" if "writable p = None"
    unfolding send snapshotBytes_def by (rule writeCodes_unlimited [OF that])
  note recv = readGrids_ok [of c W H q, folded tb_def, folded slot_def, OF assms(7) assms(3,4)
      assms(8) assms(9,10) assms(11)]
  have e2e: "wireCodes (swapOnRead q)
        (take (2 * (nat ((W - 1) * (H - 1)) + nat (W * H))) (received q)) =
        snapshotCodes (W, H) er gb \<and>
      drop (2 * (nat ((W - 1) * (H - 1)) + nat (W * H))) (received q) = rest"
    if "received q = snapshotBytes (W, H) er gb @ rest" "\<not> swapOnRead q"
  proof -
    have "take (2 * (nat ((W - 1) * (H - 1)) + nat (W * H))) (received q) =
        snapshotBytes (W, H) er gb"
      using that(1) lb n by simp
    moreover have "wireCodes False (snapshotBytes (W, H) er gb) = snapshotCodes (W, H) er gb"
      using wireCodes_hostBytes16 [of "snapshotCodes (W, H) er gb" "[]"]
      by (simp add: snapshotBytes_def)
    moreover have "drop (2 * (nat ((W - 1) * (H - 1)) + nat (W * H))) (received q) = rest"
      using that(1) lb n by simp
    ultimately show ?thesis using that(2) by simp
  qed
  show ?thesis
    using codes lc lb send sendall recv e2e by blast
qed

lemma example_quantized:
  "quantize (0, 1) (1/2) = 0x8000" "quantize (0, 1) 0 = 0"
  "quantize (0, 1) (1/4) = 0x4000" "quantize (0, 1) 1 = 0xFFFF"
  by (simp_all add: quantize_def Let_def sub32_def round32_def example_rounding
      example_rounding01)

lemma example_snapshot:
  "snapshotCodes (2, 2) (0, 1) exampleGrids = [0x8000, 0, 0x4000, 0x8000, 0xFFFF]"
  "snapshotBytes (2, 2) (0, 1) exampleGrids = [0, 0x80,  0, 0,  0, 0x40,  0, 0x80,  0xFF, 0xFF]"
  by (simp_all add: snapshotBytes_def snapshotCodes_def exampleGrids_def example_quantized
      hostBytes16_def)

lemma example_dequantized:
  "dequantize (0, 1) 0x8000 = 65537 / 131072" "dequantize (0, 1) 0 = 0"
  "dequantize (0, 1) 0x4000 = 65537 / 262144" "dequantize (0, 1) 0xFFFF = 1"
  by (simp_all add: dequantize_def Let_def sub32_def round32_def example_rounding
      example_rounding01)

lemma viewer_fields:
  "sc_gridSize exampleViewer = (2, 2)" "sc_elevationRange exampleViewer = (0, 1)"
  "pipe exampleViewer =
     Some (TCPPipe_new [0, 0x80,  0, 0,  0, 0x40,  0, 0x80,  0xFF, 0xFF,  9] None)"
  "startNewValue (grids exampleViewer) =
     \<lparr>buffer = replicate 3 \<lparr>bathymetry = [0], waterLevel = [0, 0, 0, 0]\<rparr>,
      lockedIndex = 0, mostRecentIndex = 0, nextIndex = 1\<rparr>"
  by (simp_all add: exampleViewer_def startNewValue_def Let_def)

lemma viewer_slot:
  "buffer (startNewValue (grids exampleViewer)) ! nextIndex (startNewValue (grids exampleViewer))
     = \<lparr>bathymetry = [0], waterLevel = [0, 0, 0, 0]\<rparr>"
  by (simp add: viewer_fields numeral_3_eq_3)

lemma viewer_codes:
  "wireCodes False [0, 0x80,  0, 0,  0, 0x40,  0, 0x80,  0xFF, 0xFF] =
     [0x8000, 0, 0x4000, 0x8000, 0xFFFF]"
  by (simp add: hostValue_def word_rcat_def)

theorem snapshot_message_layout_witness:
  "length (snapshotCodes (2, 2) (0, 1) exampleGrids) = 5 \<and>
   length (snapshotBytes (2, 2) (0, 1) exampleGrids) = 10 \<and>
   sendGrids (2, 2) (0, 1) exampleGrids (TCPPipe_new [] None) =
     (Inr (), (TCPPipe_new [] None)\<lparr>sent := snapshotBytes (2, 2) (0, 1) exampleGrids\<rparr>) \<and>
   readGrids exampleViewer =
     (Inr (),
      exampleViewer
        \<lparr>pipe := Some (TCPPipe_new [9] None),
         grids := \<lparr>buffer = [\<lparr>bathymetry = [0], waterLevel = [0, 0, 0, 0]\<rparr>,
                             \<lparr>bathymetry = [65537 / 131072],
                              waterLevel = [0, 65537 / 262144, 65537 / 131072, 1]\<rparr>,
                             \<lparr>bathymetry = [0], waterLevel = [0, 0, 0, 0]\<rparr>],
                   lockedIndex = 0, mostRecentIndex = 1, nextIndex = 1\<rparr>\<rparr>)"
proof -
  let ?q = "TCPPipe_new [0, 0x80,  0, 0,  0, 0x40,  0, 0x80,  0xFF, 0xFF,  9] None"
  have a: "(1::int) \<le> 2" by simp
  have g1: "length (bathymetry exampleGrids) = nat ((2 - 1) * (2 - 1))"
    and g2: "length (waterLevel exampleGrids) = nat (2 * 2)"
    by (simp_all add: exampleGrids_def)
  have s1: "length (bathymetry (buffer (startNewValue (grids exampleViewer)) !
        nextIndex (startNewValue (grids exampleViewer)))) = nat ((2 - 1) * (2 - 1))"
    and s2: "length (waterLevel (buffer (startNewValue (grids exampleViewer)) !
        nextIndex (startNewValue (grids exampleViewer)))) = nat (2 * 2)"
    by (simp_all add: viewer_slot)
  have en: "2 * (nat ((2 - 1) * (2 - 1)) + nat (2 * 2)) \<le> length (received ?q)"
    by (simp add: TCPPipe_new_def)
  note h = snapshot_message_layout [OF a a g1 g2 viewer_fields(1) viewer_fields(3) s1 s2 en,
      of "(0, 1)" "TCPPipe_new [] None"]
  have c1: "length (snapshotCodes (2, 2) (0, 1) exampleGrids) = 5"
    using h [THEN conjunct2, THEN conjunct1] by simp
  have c2: "length (snapshotBytes (2, 2) (0, 1) exampleGrids) = 10"
    using h [THEN conjunct2, THEN conjunct2, THEN conjunct1] by simp
  have c3: "sendGrids (2, 2) (0, 1) exampleGrids (TCPPipe_new [] None) =
     (Inr (), (TCPPipe_new [] None)\<lparr>sent := snapshotBytes (2, 2) (0, 1) exampleGrids\<rparr>)"
    using h [THEN conjunct2, THEN conjunct2, THEN conjunct2, THEN conjunct2, THEN conjunct1]
    by (simp add: TCPPipe_new_def)
  have tk: "take (2 * (nat ((2 - 1) * (2 - 1)) + nat (2 * 2))) (received ?q) =
      [0, 0x80,  0, 0,  0, 0x40,  0, 0x80,  0xFF, 0xFF]"
    "drop (2 * (nat ((2 - 1) * (2 - 1)) + nat (2 * 2))) (received ?q) = [9]"
    "swapOnRead ?q = False"
    by (simp_all add: TCPPipe_new_def)
  have c4: "readGrids exampleViewer =
     (Inr (),
      exampleViewer
        \<lparr>pipe := Some (TCPPipe_new [9] None),
         grids := \<lparr>buffer = [\<lparr>bathymetry = [0], waterLevel = [0, 0, 0, 0]\<rparr>,
                             \<lparr>bathymetry = [65537 / 131072],
                              waterLevel = [0, 65537 / 262144, 65537 / 131072, 1]\<rparr>,
                             \<lparr>bathymetry = [0], waterLevel = [0, 0, 0, 0]\<rparr>],
                   lockedIndex = 0, mostRecentIndex = 1, nextIndex = 1\<rparr>\<rparr>)"
    using h [THEN conjunct2, THEN conjunct2, THEN conjunct2, THEN conjunct2, THEN conjunct2,
        THEN conjunct1]
    unfolding tk viewer_codes viewer_slot viewer_fields
    by (simp add: example_dequantized postNewValue_def TCPPipe_new_def numeral_3_eq_3)
  show ?thesis using c1 c2 c3 c4 by blast
qed

lemma startNewValue_slot:
  "buffer (startNewValue tb) = buffer tb" "nextIndex (startNewValue tb) < 3"
  by (simp_all add: startNewValue_def Let_def)

lemma example_code255: "quantize (255, 256) 255 = 1"
  by (simp add: quantize_def Let_def sub32_def round32_def example_rounding example_rounding255)

lemma example_decoded257: "dequantize (0, 1) 257 = 65793 / 16777216"
  by (simp add: dequantize_def Let_def sub32_def round32_def example_rounding
      example_rounding01 example_rounding257)

text \<open>
  The claim of C1 fails in binary32 arithmetic: the values the endpoints compute are not
  those of the formulas. For the range \<open>[255, 256]\<close> and the sample 255 the formulas give
  \<open>raw = 1/2\<close> and the code 0. The server's bias \<open>1/2 - 255 * 65535 = -16711424.5\<close> lies
  where binary32 values are 1 apart and rounds to \<open>-16711424\<close>; its raw value is 1 and it
  sends the code 1. For the range \<open>[0, 1]\<close> the client decodes the code \<open>0x8000\<close> to
  \<open>65537 / 131072\<close>, where the formula gives \<open>32768 / 65535\<close>: the client multiplies the code
  by its rounded quotient \<open>1 / 65535\<close>, which is \<open>65537 / 2^32\<close>. Neither is the client's value
  the decoding formula evaluated in binary32 in the order the claim writes it (the code
  times \<open>max - min\<close>, divided by 65535, plus \<open>min\<close>): for the code 257 that is
  \<open>8421505 / 2^31\<close>, and the client's value is \<open>65793 / 2^24\<close>.
\<close>

theorem quantization_formulas_counterexample:
  "(255::real) < 256 \<and>
   spec_encode 255 256 255 = 0 \<and>
   unat (quantize (255, 256) 255) = 1 \<and>
   unat (quantize (255, 256) 255) \<noteq> spec_encode 255 256 255 \<and>
   (0::real) < 1 \<and>
   spec_decode 0 1 (unat (0x8000 :: 16 word)) = 32768 / 65535 \<and>
   dequantize (0, 1) 0x8000 = 65537 / 131072 \<and>
   dequantize (0, 1) 0x8000 \<noteq> spec_decode 0 1 (unat (0x8000 :: 16 word)) \<and>
   nearest32 (nearest32 (nearest32 (257 * nearest32 (1 - 0)) / 65535) + 0)
     = 8421505 / 2147483648 \<and>
   dequantize (0, 1) 257 = 65793 / 16777216 \<and>
   dequantize (0, 1) 257
     \<noteq> nearest32 (nearest32 (nearest32 (257 * nearest32 (1 - 0)) / 65535) + 0)"
  by (simp add: example_code255 example_dequantized example_decoded257 spec_encode_def
      spec_decode_def Let_def example_rounding example_rounding257)

text \<open>
  C1, as amended. For a range \<open>[lo, hi]\<close> of moderate size (both bounds at most \<open>2^50\<close> in
  magnitude, \<open>hi - lo\<close> at least \<open>2^-50\<close>) and samples of magnitude at most \<open>2^50\<close>, both
  endpoints compute the spec's formulas in binary32 arithmetic, the result of every
  operation rounded to the nearest binary32 value: the server's code for an elevation is
  the one of the rounded encoding formula, the client's elevation for a code is the one
  of the rounded decoding formula (the code times the rounded quotient \<open>(hi - lo) / 65535\<close>,
  plus \<open>lo\<close>), the message the server sends for a pair of grids consists of these codes of
  all bathymetry samples followed by those of all water level samples, and the grids the
  client posts consist of these decodings of the codes it read. The rounded values stay
  near the exact ones: the client's elevation for a code is at most
  \<open>(max \<bar>lo\<bar> \<bar>hi\<bar> + 5 (hi - lo)) / 2^24\<close> away from the exact decoding of the code, and for
  \<open>lo \<le> e \<le> hi\<close> the exact decoding of the server's code for \<open>e\<close> is at most half a step
  \<open>(hi - lo) / 65535\<close> plus \<open>(18/5 max \<bar>lo\<bar> \<bar>hi\<bar> + 5 (hi - lo)) / 2^24\<close> away from \<open>e\<close>.
\<close>

theorem quantization_formulas:
  fixes c :: SandboxClient
  defines "tb \<equiv> startNewValue (grids c)"
  defines "slot \<equiv> buffer tb ! nextIndex tb"
  assumes "\<bar>lo\<bar> \<le> 2^50" "\<bar>hi\<bar> \<le> 2^50" "1 / 2^50 \<le> hi - lo"
    and "\<bar>e\<bar> \<le> 2^50"
    and "\<forall>x \<in> set (bathymetry gb @ waterLevel gb). \<bar>x\<bar> \<le> 2^50"
    and "1 \<le> W" "1 \<le> H"
    and "length (bathymetry gb) = nat ((W - 1) * (H - 1))"
    and "length (waterLevel gb) = nat (W * H)"
    and "sc_gridSize c = (W, H)" "sc_elevationRange c = (lo, hi)" "pipe c = Some q"
    and "length (buffer (grids c)) = 3"
    and "length (bathymetry slot) = nat ((W - 1) * (H - 1))"
    and "length (waterLevel slot) = nat (W * H)"
    and "2 * (nat ((W - 1) * (H - 1)) + nat (W * H)) \<le> length (received q)"
  shows "unat (quantize (lo, hi) e) = spec_encode32 lo hi e \<and>
         dequantize (lo, hi) k = spec_decode32 lo hi (unat k) \<and>
         \<bar>spec_decode32 lo hi (unat k) - spec_decode lo hi (unat k)\<bar>
           \<le> (max \<bar>lo\<bar> \<bar>hi\<bar> + 5 * (hi - lo)) / 2^24 \<and>
         (lo \<le> e \<and> e \<le> hi \<longrightarrow>
            \<bar>spec_decode lo hi (spec_encode32 lo hi e) - e\<bar>
              \<le> (hi - lo) / 131070 + (18/5 * max \<bar>lo\<bar> \<bar>hi\<bar> + 5 * (hi - lo)) / 2^24) \<and>
         sendGrids (W, H) (lo, hi) gb p =
           writeCodes (map (\<lambda>e. of_nat (spec_encode32 lo hi e)) (bathymetry gb @ waterLevel gb)) p \<and>
         fst (readGrids c) = Inr () \<and>
         bathymetry (buffer (grids (snd (readGrids c))) ! mostRecentIndex (grids (snd (readGrids c))))
           = map (\<lambda>k. spec_decode32 lo hi (unat k))
               (take (nat ((W - 1) * (H - 1)))
                  (wireCodes (swapOnRead q)
                     (take (2 * (nat ((W - 1) * (H - 1)) + nat (W * H))) (received q)))) \<and>
         waterLevel (buffer (grids (snd (readGrids c))) ! mostRecentIndex (grids (snd (readGrids c))))
           = map (\<lambda>k. spec_decode32 lo hi (unat k))
               (drop (nat ((W - 1) * (H - 1)))
                  (wireCodes (swapOnRead q)
                     (take (2 * (nat ((W - 1) * (H - 1)) + nat (W * H))) (received q))))"
proof -
  have sz: "1 \<le> fst (W, H)" "1 \<le> snd (W, H)"
    "nat ((fst (W, H) - 1) * (snd (W, H) - 1)) \<le> length (bathymetry gb)"
    "nat (fst (W, H) * snd (W, H)) \<le> length (waterLevel gb)"
    using assms by simp_all
  note r = assms(3,4,5)
  have enc: "unat (quantize (lo, hi) e) = spec_encode32 lo hi e"
    by (rule quantize_spec32 [OF r assms(6)])
  have dec: "dequantize (lo, hi) k = spec_decode32 lo hi (unat k)" for k
    by (rule dequantize_spec32 [OF r])
  have "unat k \<le> 65535" using unsigned_less [of k, where 'a = nat] by simp
  hence near_dec: "\<bar>spec_decode32 lo hi (unat k) - spec_decode lo hi (unat k)\<bar>
      \<le> (max \<bar>lo\<bar> \<bar>hi\<bar> + 5 * (hi - lo)) / 2^24"
    by (rule decode_error [OF r])
  have near_enc: "\<bar>spec_decode lo hi (spec_encode32 lo hi e) - e\<bar>
      \<le> (hi - lo) / 131070 + (18/5 * max \<bar>lo\<bar> \<bar>hi\<bar> + 5 * (hi - lo)) / 2^24"
    if "lo \<le> e \<and> e \<le> hi"
    using encode_error(2) [OF _ _ r] that by simp
  have q: "quantize (lo, hi) x = of_nat (spec_encode32 lo hi x)"
    if "x \<in> set (bathymetry gb @ waterLevel gb)" for x
  proof -
    have "\<bar>x\<bar> \<le> 2^50" using assms(7) that by blast
    hence "unat (quantize (lo, hi) x) = spec_encode32 lo hi x"
      by (rule quantize_spec32 [OF r])
    hence "(of_nat (unat (quantize (lo, hi) x)) :: 16 word) = of_nat (spec_encode32 lo hi x)"
      by (simp only:)
    thus ?thesis by simp
  qed
  have d: "dequantize (lo, hi) = (\<lambda>k. spec_decode32 lo hi (unat k))"
    by (rule ext) (rule dec)
  have "snapshotCodes (W, H) (lo, hi) gb = map (quantize (lo, hi)) (bathymetry gb @ waterLevel gb)"
    using snapshotCodes_exact [of gb "(W, H)" "(lo, hi)"] assms(10,11) by simp
  also have "\<dots> = map (\<lambda>e. of_nat (spec_encode32 lo hi e)) (bathymetry gb @ waterLevel gb)"
    by (rule map_cong [OF refl]) (rule q)
  finally have codes: "snapshotCodes (W, H) (lo, hi) gb =
      map (\<lambda>e. of_nat (spec_encode32 lo hi e)) (bathymetry gb @ waterLevel gb)" .
  have send: "sendGrids (W, H) (lo, hi) gb p =
      writeCodes (map (\<lambda>e. of_nat (spec_encode32 lo hi e)) (bathymetry gb @ waterLevel gb)) p"
    using sendGrids_writeCodes [OF sz, of "(lo, hi)" p] by (simp only: codes)
  have idx: "nextIndex tb < length (buffer tb)"
    using startNewValue_slot [of "grids c"] assms(15) by (simp add: tb_def)
  note recv = readGrids_ok [of c W H q, folded tb_def, folded slot_def, OF assms(12) assms(8,9)
      assms(14) assms(16,17) assms(18)]
  have posted: "fst (readGrids c) = Inr () \<and>
      bathymetry (buffer (grids (snd (readGrids c))) ! mostRecentIndex (grids (snd (readGrids c))))
        = map (\<lambda>k. spec_decode32 lo hi (unat k))
            (take (nat ((W - 1) * (H - 1)))
               (wireCodes (swapOnRead q)
                  (take (2 * (nat ((W - 1) * (H - 1)) + nat (W * H))) (received q)))) \<and>
      waterLevel (buffer (grids (snd (readGrids c))) ! mostRecentIndex (grids (snd (readGrids c))))
        = map (\<lambda>k. spec_decode32 lo hi (unat k))
            (drop (nat ((W - 1) * (H - 1)))
               (wireCodes (swapOnRead q)
                  (take (2 * (nat ((W - 1) * (H - 1)) + nat (W * H))) (received q))))"
    using idx by (simp add: recv postNewValue_def assms(13) d)
  show ?thesis
    using enc dec near_dec near_enc send posted by blast
qed

theorem quantization_formulas_witness:
  "unat (quantize (0, 1) (1/4)) = spec_encode32 0 1 (1/4) \<and>
   spec_encode32 0 1 (1/4) = 16384 \<and>
   dequantize (0, 1) 0x4000 = spec_decode32 0 1 (unat (0x4000 :: 16 word)) \<and>
   spec_decode32 0 1 16384 = 65537 / 262144 \<and>
   \<bar>spec_decode32 0 1 (unat (0x4000 :: 16 word)) - spec_decode 0 1 (unat (0x4000 :: 16 word))\<bar>
     \<le> (max \<bar>0\<bar> \<bar>1\<bar> + 5 * (1 - 0)) / 2^24 \<and>
   \<bar>spec_decode 0 1 (spec_encode32 0 1 (1/4)) - 1/4\<bar>
     \<le> (1 - 0) / 131070 + (18/5 * max \<bar>0\<bar> \<bar>1\<bar> + 5 * (1 - 0)) / 2^24 \<and>
   sendGrids (2, 2) (0, 1) exampleGrids (TCPPipe_new [] None) =
     writeCodes (map (\<lambda>e. of_nat (spec_encode32 0 1 e))
                   (bathymetry exampleGrids @ waterLevel exampleGrids)) (TCPPipe_new [] None) \<and>
   fst (readGrids exampleViewer) = Inr ()"
proof -
  let ?q = "TCPPipe_new [0, 0x80,  0, 0,  0, 0x40,  0, 0x80,  0xFF, 0xFF,  9] None"
  have r: "\<bar>0 :: real\<bar> \<le> 2^50" "\<bar>1 :: real\<bar> \<le> 2^50" "(1 :: real) / 2^50 \<le> 1 - 0"
    "\<bar>1/4 :: real\<bar> \<le> 2^50"
    by simp_all
  have s: "\<forall>x \<in> set (bathymetry exampleGrids @ waterLevel exampleGrids). \<bar>x\<bar> \<le> 2^50"
    by (simp add: exampleGrids_def)
  have a: "(1::int) \<le> 2" by simp
  have g1: "length (bathymetry exampleGrids) = nat ((2 - 1) * (2 - 1))"
    and g2: "length (waterLevel exampleGrids) = nat (2 * 2)"
    by (simp_all add: exampleGrids_def)
  have b: "length (buffer (grids exampleViewer)) = 3" by (simp add: exampleViewer_def)
  have s1: "length (bathymetry (buffer (startNewValue (grids exampleViewer)) !
        nextIndex (startNewValue (grids exampleViewer)))) = nat ((2 - 1) * (2 - 1))"
    and s2: "length (waterLevel (buffer (startNewValue (grids exampleViewer)) !
        nextIndex (startNewValue (grids exampleViewer)))) = nat (2 * 2)"
    by (simp_all add: viewer_slot)
  have en: "2 * (nat ((2 - 1) * (2 - 1)) + nat (2 * 2)) \<le> length (received ?q)"
    by (simp add: TCPPipe_new_def)
  note h = quantization_formulas [OF r s a a g1 g2 viewer_fields(1) viewer_fields(2)
      viewer_fields(3) b s1 s2 en, of "0x4000" "TCPPipe_new [] None"]
  have v: "spec_encode32 0 1 (1/4) = 16384" "spec_decode32 0 1 16384 = 65537 / 262144"
    by (simp_all add: spec_encode32_def spec_decode32_def Let_def example_rounding
        example_rounding01)
  have i: "(0::real) \<le> 1/4 \<and> (1/4::real) \<le> 1" by simp
  show ?thesis
    using h [THEN conjunct1] h [THEN conjunct2, THEN conjunct1]
      h [THEN conjunct2, THEN conjunct2, THEN conjunct1]
      h [THEN conjunct2, THEN conjunct2, THEN conjunct2, THEN conjunct1, rule_format, OF i]
      h [THEN conjunct2, THEN conjunct2, THEN conjunct2, THEN conjunct2, THEN conjunct1]
      h [THEN conjunct2, THEN conjunct2, THEN conjunct2, THEN conjunct2, THEN conjunct2,
        THEN conjunct1] v
    by blast
qed

subsection \<open>A snapshot cut short\<close>

lemma truncated_fields:
  "sc_gridSize truncatedViewer = (2, 2)" "sc_elevationRange truncatedViewer = (0, 1)"
  "pipe truncatedViewer = Some (TCPPipe_new [0, 0x80,  0] None)"
  "grids truncatedViewer = grids exampleViewer" "listening truncatedViewer"
  by (simp_all add: truncatedViewer_def exampleViewer_def)

lemma truncated_readGrids:
  "readGrids truncatedViewer =
     (Inl (runtime_error ''TCPPipe: read error''),
      truncatedViewer
        \<lparr>pipe := Some (TCPPipe_new [] None),
         grids := \<lparr>buffer = [\<lparr>bathymetry = [0], waterLevel = [0, 0, 0, 0]\<rparr>,
                             \<lparr>bathymetry = [65537 / 131072], waterLevel = [0, 0, 0, 0]\<rparr>,
                             \<lparr>bathymetry = [0], waterLevel = [0, 0, 0, 0]\<rparr>],
                   lockedIndex = 0, mostRecentIndex = 0, nextIndex = 1\<rparr>\<rparr>)"
proof -
  have l1: "forLoop 0 1 (\<lambda>y. forLoop 0 1 (\<lambda>x. receiveSample (0, 1)))
      (0, [0], TCPPipe_new [0, 0x80,  0] None) =
      (Inr (), (1, [65537 / 131072], TCPPipe_new [0] None))"
    by (simp add: forLoop_step forLoop_done receiveSample_def read_UInt16_def readRaw_def
        TCPPipe_new_def hostValue_def word_rcat_def example_dequantized)
  have l2: "forLoop 0 2 (\<lambda>y. forLoop 0 2 (\<lambda>x. receiveSample (0, 1)))
      (0, [0, 0, 0, 0], TCPPipe_new [0] None) =
      (Inl (runtime_error ''TCPPipe: read error''), (0, [0, 0, 0, 0], TCPPipe_new [] None))"
    by (simp add: forLoop_step forLoop_done receiveSample_def read_UInt16_def readRaw_def
        TCPPipe_new_def)
  show ?thesis
    by (simp add: readGrids_def Let_def truncated_fields viewer_fields(4) l1 l2 numeral_3_eq_3)
qed

text \<open>
  C9 does not hold for the code. On a connection that ends in the middle of a snapshot
  message \<open>readGrids\<close> throws; the callback catches the exception and returns \<^verbatim>\<open>false\<close>.
  The partial read is not posted (the locked grids are the old ones), but the pipe is
  still there, the callback is still registered, and the next event makes the client read
  from the same connection again.
\<close>

theorem serverMessageCallback_swallows_error:
  "fst (readGrids truncatedViewer) = Inl (runtime_error ''TCPPipe: read error'') \<and>
   fst (serverMessageCallback truncatedViewer) = False \<and>
   pipe (snd (serverMessageCallback truncatedViewer)) = Some (TCPPipe_new [] None) \<and>
   getLockedValue (grids (snd (serverMessageCallback truncatedViewer))) =
     getLockedValue (grids truncatedViewer) \<and>
   listening (dispatchServerEvent truncatedViewer) \<and>
   pipe (dispatchServerEvent truncatedViewer) \<noteq> None \<and>
   fst (readGrids (dispatchServerEvent truncatedViewer)) =
     Inl (runtime_error ''TCPPipe: read error'')"
proof -
  have cb: "serverMessageCallback truncatedViewer = (False, snd (readGrids truncatedViewer))"
    by (simp add: serverMessageCallback_def truncated_readGrids)
  have dp: "dispatchServerEvent truncatedViewer = snd (readGrids truncatedViewer)"
    by (simp add: dispatchServerEvent_def cb)
  have again: "fst (readGrids (snd (readGrids truncatedViewer))) =
      Inl (runtime_error ''TCPPipe: read error'')"
    unfolding truncated_readGrids snd_conv
    by (simp add: readGrids_def Let_def truncated_fields startNewValue_def forLoop_step
        forLoop_done receiveSample_def read_UInt16_def readRaw_def TCPPipe_new_def)
  show ?thesis
    unfolding cb dp again
    by (simp add: truncated_readGrids getLockedValue_def truncated_fields exampleViewer_def
        numeral_3_eq_3)
qed

end
